theory Spec2Isabelle
  imports Main "HOL-Library.Word"
begin

unbundle bit_operations_syntax

section \<open>C strings, character classes and libc helpers\<close>

text \<open>
  A \<open>const char *\<close> is modelled by the list of the bytes it points to, up to and without
  the terminating NUL; a pointer that may be \<open>NULL\<close> is a \<open>string option\<close>.  A pointer
  into a string is the suffix that starts there, so that two pointers into the same
  string are equal exactly when the suffixes are.

  The character classes of \<open>dpkg/c-ctype.h\<close>, the string and error helpers of
  \<open>dpkg/string.h\<close> and \<open>dpkg/error.c\<close>, the varbuf and the allocators are not among the
  sources; like the functions of the C library they are modelled by what they are
  documented to do, each where it is first used.
\<close>

definition c_isblank :: "char \<Rightarrow> bool" where
  \<comment> \<open>Space and horizontal tab.\<close>
  "c_isblank c = (c = CHR '' '' \<or> c = CHR 0x09)"

definition c_isdigit :: "char \<Rightarrow> bool" where
  \<comment> \<open>The ASCII digits.\<close>
  "c_isdigit c = (48 \<le> (of_char c :: nat) \<and> (of_char c :: nat) \<le> 57)"

definition c_isalpha :: "char \<Rightarrow> bool" where
  \<comment> \<open>The ASCII letters of either case.\<close>
  "c_isalpha c = ((65 \<le> (of_char c :: nat) \<and> (of_char c :: nat) \<le> 90) \<or>
                  (97 \<le> (of_char c :: nat) \<and> (of_char c :: nat) \<le> 122))"

definition isspace :: "char \<Rightarrow> bool" where
  \<comment> \<open>libc \<open>isspace\<close> in the C locale, as \<open>strtol\<close> uses it.\<close>
  "isspace c = (c = CHR '' '' \<or> (9 \<le> (of_char c :: nat) \<and> (of_char c :: nat) \<le> 13))"

definition strchr :: "string \<Rightarrow> char \<Rightarrow> string option" where
  \<comment> \<open>The suffix starting at the first occurrence of \<open>c\<close>, or \<open>NULL\<close>.\<close>
  "strchr s c = (if c \<in> set s then Some (dropWhile (\<lambda>x. x \<noteq> c) s) else None)"

definition strrchr :: "string \<Rightarrow> char \<Rightarrow> nat option" where
  \<comment> \<open>The offset of the last occurrence of \<open>c\<close>, or \<open>NULL\<close>.\<close>
  "strrchr s c = (if c \<in> set s
                  then Some (length (dropWhile (\<lambda>x. x \<noteq> c) (rev s)) - 1) else None)"

definition digit_val :: "char \<Rightarrow> nat" where
  "digit_val c = of_char c - 48"

definition digit_chr :: "nat \<Rightarrow> char" where
  "digit_chr d = ''0123456789'' ! d"

fun strtol_digits :: "nat \<Rightarrow> string \<Rightarrow> nat \<times> string" where
  "strtol_digits acc [] = (acc, [])"
| "strtol_digits acc (c # cs) =
     (if c_isdigit c then strtol_digits (acc * 10 + digit_val c) cs else (acc, c # cs))"

definition LONG_MAX :: int where "LONG_MAX = 2 ^ 63 - 1"
definition LONG_MIN :: int where "LONG_MIN = - (2 ^ 63)"
definition INT_MAX :: int where "INT_MAX = 2 ^ 31 - 1"

definition strtol_sign :: "string \<Rightarrow> bool \<times> string" where
  "strtol_sign s = (case s of [] \<Rightarrow> (False, [])
     | c # cs \<Rightarrow> if c = CHR ''-'' then (True, cs)
                else if c = CHR ''+'' then (False, cs) else (False, c # cs))"

definition strtol :: "string \<Rightarrow> int \<times> string \<times> bool" where
  \<comment> \<open>\<open>strtol(s, &endp, 10)\<close> with a 64-bit \<open>long\<close>: the value, \<open>endp\<close>, and whether
     \<open>errno\<close> was set to \<open>ERANGE\<close>.  Without a digit nothing is converted: the value is 0
     and \<open>endp\<close> is \<open>s\<close> itself.\<close>
  "strtol s =
     (case strtol_sign (dropWhile isspace s) of (neg, s2) \<Rightarrow>
        (case s2 of [] \<Rightarrow> (0, s, False)
         | c # cs \<Rightarrow>
            if \<not> c_isdigit c then (0, s, False)
            else (case strtol_digits 0 s2 of (n, rest) \<Rightarrow>
                   let v = (if neg then - int n else int n)
                   in if v > LONG_MAX then (LONG_MAX, rest, True)
                      else if v < LONG_MIN then (LONG_MIN, rest, True)
                      else (v, rest, False))))"

fun printf_u :: "nat \<Rightarrow> string" where
  \<comment> \<open>\<open>%u\<close>: the decimal digits of an unsigned value.\<close>
  "printf_u n = (if n < 10 then [digit_chr n]
                 else printf_u (n div 10) @ [digit_chr (n mod 10)])"

declare printf_u.simps [simp del]

section \<open>Versions: \<open>lib/dpkg/parsehelp.c\<close>\<close>

text \<open>
  \<open>struct dpkg_version\<close> has an \<open>unsigned int\<close> epoch and two string pointers.
  \<open>struct dpkg_error\<close> carries a message type and the message.
\<close>

record dpkg_version =
  epoch :: "32 word"
  version :: "string option"
  revision :: "string option"

datatype dpkg_msg_type = DPKG_MSG_NONE | DPKG_MSG_WARN | DPKG_MSG_ERROR

record dpkg_error =
  err_type :: dpkg_msg_type
  err_str :: "string option"

datatype versiondisplayepochwhen = vdew_never | vdew_nonambig | vdew_always

definition str_is_set :: "string option \<Rightarrow> bool" where
  \<comment> \<open>\<open>str_is_set\<close> of \<open>dpkg/string.h\<close>: neither \<open>NULL\<close> nor empty.\<close>
  "str_is_set s = (case s of None \<Rightarrow> False | Some x \<Rightarrow> x \<noteq> [])"

definition str_is_unset :: "string option \<Rightarrow> bool" where
  "str_is_unset s = (\<not> str_is_set s)"

definition has_colon :: "string option \<Rightarrow> bool" where
  \<comment> \<open>\<open>s && strchr(s, ':')\<close>\<close>
  "has_colon s = (case s of None \<Rightarrow> False | Some x \<Rightarrow> strchr x CHR '':'' \<noteq> None)"

definition varbufversion ::
  "string \<Rightarrow> dpkg_version \<Rightarrow> versiondisplayepochwhen \<Rightarrow> string" where
  \<comment> \<open>The varbuf is the string of its used bytes; every call appends.  The \<open>default\<close>
     branch of the switch is for values outside the enumeration, which the datatype
     does not have.\<close>
  "varbufversion vb ver vdew =
     (let vb1 = (case vdew of
                   vdew_never \<Rightarrow> vb
                 | vdew_nonambig \<Rightarrow>
                     if epoch ver = 0 \<and> \<not> has_colon (version ver) \<and> \<not> has_colon (revision ver)
                     then vb
                     else vb @ printf_u (unat (epoch ver)) @ '':''
                 | vdew_always \<Rightarrow> vb @ printf_u (unat (epoch ver)) @ '':'');
          vb2 = (case version ver of None \<Rightarrow> vb1 | Some u \<Rightarrow> vb1 @ u)
      in if str_is_set (revision ver)
         then vb2 @ ''-'' @ the (revision ver)
         else vb2)"

definition dpkg_put_error :: "dpkg_error \<Rightarrow> string \<Rightarrow> int \<times> dpkg_error" where
  \<comment> \<open>\<open>dpkg_put_error\<close> of \<open>dpkg/error.c\<close>: record an error-level message, return -1.\<close>
  "dpkg_put_error err msg = (-1, err\<lparr>err_type := DPKG_MSG_ERROR, err_str := Some msg\<rparr>)"

definition dpkg_put_warn :: "dpkg_error \<Rightarrow> string \<Rightarrow> int \<times> dpkg_error" where
  \<comment> \<open>\<open>dpkg_put_warn\<close> of \<open>dpkg/error.c\<close>: record a warning-level message, return -1.\<close>
  "dpkg_put_warn err msg = (-1, err\<lparr>err_type := DPKG_MSG_WARN, err_str := Some msg\<rparr>)"

definition version_char_ok :: "char \<Rightarrow> bool" where
  "version_char_ok c = (c_isdigit c \<or> c_isalpha c \<or> strchr ''.-+~:'' c \<noteq> None)"

definition revision_char_ok :: "char \<Rightarrow> bool" where
  "revision_char_ok c = (c_isdigit c \<or> c_isalpha c \<or> strchr ''.+~'' c \<noteq> None)"

definition parseversion_check ::
  "dpkg_version \<Rightarrow> string \<Rightarrow> string \<Rightarrow> dpkg_error \<Rightarrow> int \<times> dpkg_version \<times> dpkg_error"
  where
  \<comment> \<open>Lines 243-257: the syntax checks; \<open>ptr\<close> is the string \<open>rversion->version\<close> and
     \<open>rvs\<close> the string \<open>rversion->revision\<close>, both just stored.\<close>
  "parseversion_check rversion ptr rvs err =
     (if ptr = [] then
        (case dpkg_put_error err ''version number is empty'' of (rc, e) \<Rightarrow> (rc, rversion, e))
      else if \<not> c_isdigit (hd ptr) then
        (case dpkg_put_warn err ''version number does not start with digit'' of
           (rc, e) \<Rightarrow> (rc, rversion, e))
      else if \<not> list_all version_char_ok (tl ptr) then
        (case dpkg_put_warn err ''invalid character in version number'' of
           (rc, e) \<Rightarrow> (rc, rversion, e))
      else if \<not> list_all revision_char_ok rvs then
        (case dpkg_put_warn err ''invalid character in revision number'' of
           (rc, e) \<Rightarrow> (rc, rversion, e))
      else (0, rversion, err))"

definition parseversion_split ::
  "dpkg_version \<Rightarrow> string \<Rightarrow> string \<Rightarrow> dpkg_error \<Rightarrow> int \<times> dpkg_version \<times> dpkg_error" where
  \<comment> \<open>Lines 232-240: \<open>str\<close> is \<open>string\<close> after the epoch, \<open>endp\<close> is \<open>end\<close>; the copy of
     \<open>end - string\<close> bytes is cut at its last hyphen.\<close>
  "parseversion_split rversion str endp err =
     (let v0 = take (length str - length endp) str in
      case strrchr v0 CHR ''-'' of
        Some k \<Rightarrow>
          let rv = rversion\<lparr>version := Some (take k v0)\<rparr>;
              hyphen = drop (Suc k) v0
          in if hyphen = [] then
               (case dpkg_put_error err ''revision number is empty'' of
                  (rc, e) \<Rightarrow> (rc, rv, e))
             else parseversion_check (rv\<lparr>revision := Some hyphen\<rparr>) (take k v0) hyphen err
      | None \<Rightarrow>
          parseversion_check (rversion\<lparr>version := Some v0, revision := Some []\<rparr>) v0 [] err)"

definition parseversion ::
  "dpkg_version \<Rightarrow> string \<Rightarrow> dpkg_error \<Rightarrow> int \<times> dpkg_version \<times> dpkg_error" where
  \<comment> \<open>The return value, and \<open>*rversion\<close> and \<open>*err\<close> as the call leaves them.\<close>
  "parseversion rversion string0 err =
     (let str = dropWhile c_isblank string0 in
      if str = [] then
        (case dpkg_put_error err ''version string is empty'' of (rc, e) \<Rightarrow> (rc, rversion, e))
      else
        let endp = dropWhile (\<lambda>c. \<not> c_isblank c) str;
            ptr = dropWhile c_isblank endp
        in if ptr \<noteq> [] then
             (case dpkg_put_error err ''version string has embedded spaces'' of
                (rc, e) \<Rightarrow> (rc, rversion, e))
           else
             (case strchr str CHR '':'' of
                Some colon \<Rightarrow>
                  (case strtol str of (ep, eepochcolon, erange) \<Rightarrow>
                    if str = eepochcolon then
                      (case dpkg_put_error err ''epoch in version is empty'' of
                         (rc, e) \<Rightarrow> (rc, rversion, e))
                    else if colon \<noteq> eepochcolon then
                      (case dpkg_put_error err ''epoch in version is not number'' of
                         (rc, e) \<Rightarrow> (rc, rversion, e))
                    else if ep < 0 then
                      (case dpkg_put_error err ''epoch in version is negative'' of
                         (rc, e) \<Rightarrow> (rc, rversion, e))
                    else if ep > INT_MAX \<or> erange then
                      (case dpkg_put_error err ''epoch in version is too big'' of
                         (rc, e) \<Rightarrow> (rc, rversion, e))
                    else if tl colon = [] then
                      (case dpkg_put_error err ''nothing after colon in version number'' of
                         (rc, e) \<Rightarrow> (rc, rversion, e))
                    else parseversion_split (rversion\<lparr>epoch := word_of_int ep\<rparr>)
                           (tl colon) endp err)
              | None \<Rightarrow> parseversion_split (rversion\<lparr>epoch := 0\<rparr>) str endp err))"


definition text_after_epoch :: "string \<Rightarrow> string" where
  \<comment> \<open>In the spec's words, the text of a version string that remains when surrounding
     blanks and an epoch prefix, up to the first colon, are taken away.\<close>
  "text_after_epoch s =
     (let tok = takeWhile (\<lambda>c. \<not> c_isblank c) (dropWhile c_isblank s) in
      case strchr tok CHR '':'' of None \<Rightarrow> tok | Some colon \<Rightarrow> tl colon)"

definition parseversion_early_errors :: "string set" where
  \<comment> \<open>The messages of the failures that come before the split at the hyphen.\<close>
  "parseversion_early_errors =
     {''version string is empty'', ''version string has embedded spaces'',
      ''epoch in version is empty'', ''epoch in version is not number'',
      ''epoch in version is negative'', ''epoch in version is too big'',
      ''nothing after colon in version number''}"



definition dpkg_version_blank :: dpkg_version where
  \<comment> \<open>What \<open>dpkg_version_blank\<close> of \<open>dpkg/version.c\<close> stores: no epoch, no strings.\<close>
  "dpkg_version_blank = \<lparr>epoch = 0, version = None, revision = None\<rparr>"

definition DPKG_ERROR_INIT :: dpkg_error where
  "DPKG_ERROR_INIT = \<lparr>err_type = DPKG_MSG_NONE, err_str = None\<rparr>"


datatype parse_report =
  PARSE_SILENT | is_PARSE_WARN: PARSE_WARN string | is_PARSE_ERROR: PARSE_ERROR string


text \<open>
  \<open>versiondescribe\<close> keeps ten static varbufs and the index of the next one to use.  It
  returns either the string literal (the message catalogue is not modelled: the literal
  is returned untranslated) or a pointer to one of the varbufs.
\<close>

definition dpkg_version_is_informative :: "dpkg_version \<Rightarrow> bool" where
  \<comment> \<open>Modelled from the spec: \<open>dpkg_version_is_informative\<close> of \<open>dpkg/version.c\<close> is not
     among the sources; in the words of the claim about \<open>versiondescribe\<close>, a version is
     not informative when its epoch is zero and its upstream version and revision are
     unset.\<close>
  "dpkg_version_is_informative ver =
     (epoch ver \<noteq> 0 \<or> str_is_set (version ver) \<or> str_is_set (revision ver))"

record versiondescribe_static =
  bufs :: "string list"
  bufnum :: nat

datatype char_ptr = Literal string | Bufs nat

definition versiondescribe_init :: versiondescribe_static where
  "versiondescribe_init = \<lparr>bufs = replicate 10 [], bufnum = 0\<rparr>"

definition deref :: "versiondescribe_static \<Rightarrow> char_ptr \<Rightarrow> string" where
  \<comment> \<open>The string a returned pointer designates.\<close>
  "deref st p = (case p of Literal s \<Rightarrow> s | Bufs i \<Rightarrow> bufs st ! i)"

definition versiondescribe ::
  "versiondescribe_static \<Rightarrow> dpkg_version \<Rightarrow> versiondisplayepochwhen
     \<Rightarrow> char_ptr \<times> versiondescribe_static" where
  "versiondescribe st ver vdew =
     (if \<not> dpkg_version_is_informative ver then (Literal ''<none>'', st)
      else
        let i = bufnum st;
            n = (if i + 1 = 10 then 0 else i + 1);
            vb = varbufversion [] ver vdew
        in (Bufs i, st\<lparr>bufs := (bufs st)[i := vb], bufnum := n\<rparr>))"

section \<open>Commands: \<open>lib/dpkg/command.c\<close>\<close>

text \<open>
  A cell of the \<open>argv\<close> array holds what \<open>m_malloc\<close> left there, \<open>NULL\<close>, or a pointer to
  an argument.  The array is the list of its \<open>argv_size\<close> cells; a write outside it is an
  error of the model.  The counters are C \<open>int\<close>s, modelled without wrap-around: they
  count the cells of arrays that exist in memory.
\<close>

datatype argv_cell = Uninit | Null | Arg string

record command =
  filename :: "string option"
  name :: "string option"
  argc :: int
  argv_size :: int
  argv :: "argv_cell list"

datatype command_error =
  ArgvOutOfBounds | CmdstringOutOfBounds | NullDereference | UninitialisedRead | HeapOutOfBounds

definition path_basename :: "string \<Rightarrow> string" where
  \<comment> \<open>\<open>path_basename\<close> of \<open>dpkg/path.c\<close>: what follows the last slash.\<close>
  "path_basename p = (case strrchr p CHR ''/'' of None \<Rightarrow> p | Some k \<Rightarrow> drop (Suc k) p)"

definition command_init :: "string \<Rightarrow> string option \<Rightarrow> command" where
  "command_init fname nm =
     \<lparr>filename = Some fname,
      name = (case nm of None \<Rightarrow> Some (path_basename fname) | Some n \<Rightarrow> Some n),
      argc = 0, argv_size = 10, argv = (replicate 10 Uninit)[0 := Null]\<rparr>"

definition command_destroy :: "command \<Rightarrow> command" where
  "command_destroy cmd = \<lparr>filename = None, name = None, argc = 0, argv_size = 0, argv = []\<rparr>"

definition m_realloc :: "argv_cell list \<Rightarrow> nat \<Rightarrow> argv_cell list" where
  \<comment> \<open>The old cells are kept, the new ones hold anything.\<close>
  "m_realloc a n = take n a @ replicate (n - length a) Uninit"

definition command_grow_argv :: "command \<Rightarrow> int \<Rightarrow> command" where
  "command_grow_argv cmd need0 =
     (let need = need0 + 1 in
      if argv_size cmd - argc cmd \<ge> need then cmd
      else let sz = (argv_size cmd + need) * 2
           in cmd\<lparr>argv_size := sz, argv := m_realloc (argv cmd) (nat sz)\<rparr>)"

definition argv_store :: "command \<Rightarrow> int \<Rightarrow> argv_cell \<Rightarrow> command_error + command" where
  \<comment> \<open>\<open>cmd->argv[i] = v\<close>\<close>
  "argv_store cmd i v =
     (if 0 \<le> i \<and> nat i < length (argv cmd) then Inr (cmd\<lparr>argv := (argv cmd)[nat i := v]\<rparr>)
      else Inl ArgvOutOfBounds)"

definition command_add_arg :: "command \<Rightarrow> string \<Rightarrow> command_error + command" where
  "command_add_arg cmd arg =
     (let cmd1 = command_grow_argv cmd 1 in
      case argv_store cmd1 (argc cmd1) (Arg arg) of
        Inl e \<Rightarrow> Inl e
      | Inr cmd2 \<Rightarrow>
          let cmd3 = cmd2\<lparr>argc := argc cmd2 + 1\<rparr>
          in argv_store cmd3 (argc cmd3) Null)"

fun command_copy_args :: "command \<Rightarrow> string list \<Rightarrow> command_error + command" where
  \<comment> \<open>The loop \<open>cmd->argv[cmd->argc++] = argv[i]\<close> over the arguments to add.\<close>
  "command_copy_args cmd [] = Inr cmd"
| "command_copy_args cmd (a # as) =
     (case argv_store cmd (argc cmd) (Arg a) of
        Inl e \<Rightarrow> Inl e
      | Inr cmd1 \<Rightarrow> command_copy_args (cmd1\<lparr>argc := argc cmd1 + 1\<rparr>) as)"

definition command_add_argl :: "command \<Rightarrow> string list \<Rightarrow> command_error + command" where
  \<comment> \<open>\<open>args\<close> are the entries of the array before its \<open>NULL\<close>.\<close>
  "command_add_argl cmd args =
     (let add_argc = int (length args);
          cmd1 = command_grow_argv cmd add_argc
      in case command_copy_args cmd1 args of
           Inl e \<Rightarrow> Inl e
         | Inr cmd2 \<Rightarrow> argv_store cmd2 (argc cmd2) Null)"

definition command_add_argv :: "command \<Rightarrow> string list \<Rightarrow> command_error + command" where
  \<comment> \<open>\<open>args\<close> are the entries of the \<open>va_list\<close> before its \<open>NULL\<close>.\<close>
  "command_add_argv cmd args =
     (let add_argc = int (length args);
          cmd1 = command_grow_argv cmd add_argc
      in case command_copy_args cmd1 args of
           Inl e \<Rightarrow> Inl e
         | Inr cmd2 \<Rightarrow> argv_store cmd2 (argc cmd2) Null)"

definition command_add_args :: "command \<Rightarrow> string list \<Rightarrow> command_error + command" where
  "command_add_args cmd args = command_add_argv cmd args"

datatype command_op = Add_arg string | Add_argl "string list" | Add_argv "string list"

fun command_add :: "command \<Rightarrow> command_op \<Rightarrow> command_error + command" where
  "command_add cmd (Add_arg a) = command_add_arg cmd a"
| "command_add cmd (Add_argl as) = command_add_argl cmd as"
| "command_add cmd (Add_argv as) = command_add_argv cmd as"

fun command_adds :: "command \<Rightarrow> command_op list \<Rightarrow> command_error + command" where
  \<comment> \<open>A sequence of calls; the first error ends it.\<close>
  "command_adds cmd [] = Inr cmd"
| "command_adds cmd (op # ops) =
     (case command_add cmd op of Inl e \<Rightarrow> Inl e | Inr cmd1 \<Rightarrow> command_adds cmd1 ops)"

fun added :: "command_op \<Rightarrow> string list" where
  "added (Add_arg a) = [a]"
| "added (Add_argl as) = as"
| "added (Add_argv as) = as"

text \<open>
  An \<open>exec\<close> call replaces the process: the model returns the file and the argument
  vector the new program receives.
\<close>

datatype exec_call = Exec string "string list"

definition command_exec :: "command \<Rightarrow> command_error + exec_call" where
  \<comment> \<open>\<open>execvp(cmd->filename, cmd->argv)\<close>: the arguments are the cells before the first
     \<open>NULL\<close>.\<close>
  "command_exec cmd =
     (case filename cmd of
        None \<Rightarrow> Inl NullDereference
      | Some f \<Rightarrow>
          let cells = takeWhile (\<lambda>c. c \<noteq> Null) (argv cmd)
          in if length cells = length (argv cmd) then Inl ArgvOutOfBounds
             else if Uninit \<in> set cells then Inl UninitialisedRead
             else Inr (Exec f (map (\<lambda>c. case c of Arg a \<Rightarrow> a | _ \<Rightarrow> []) cells)))"

definition DEFAULTSHELL :: string where
  \<comment> \<open>\<open>#define DEFAULTSHELL "sh"\<close> of \<open>dpkg/dpkg.h\<close>, which is not among the sources.\<close>
  "DEFAULTSHELL = ''sh''"

definition command_shell :: "string option \<Rightarrow> string option \<Rightarrow> string option \<Rightarrow> exec_call" where
  \<comment> \<open>\<open>env_SHELL\<close> is what \<open>getenv("SHELL")\<close> returns.  \<open>execlp(shell, shell, mode, cmd,
     NULL)\<close>: with \<open>cmd = NULL\<close> the argument list ends after the mode.\<close>
  "command_shell env_SHELL cmd nm =
     (let (mode, shell) = (case cmd of None \<Rightarrow> (''-i'', env_SHELL) | Some _ \<Rightarrow> (''-c'', None));
          shell1 = (if str_is_unset shell then DEFAULTSHELL else the shell)
      in Exec shell1 ([shell1, mode] @ (case cmd of None \<Rightarrow> [] | Some c \<Rightarrow> [c])))"

text \<open>
  \<open>runcmd\<close> copies the arguments, each followed by a space, into the 200 bytes of
  \<open>cmdstring\<close>.  The model keeps the bytes written so far, which are the bytes from the
  start of the buffer to \<open>ptr\<close>; a write at or after byte 200 is the error
  \<open>CmdstringOutOfBounds\<close>.  A cell read beyond the array is \<open>None\<close>.
\<close>

definition NUL :: char where
  "NUL = CHR 0x00"

definition cmdstring_put :: "string \<Rightarrow> char \<Rightarrow> command_error + string" where
  \<comment> \<open>\<open>*ptr++ = c\<close>\<close>
  "cmdstring_put buf c = (if length buf < 200 then Inr (buf @ [c]) else Inl CmdstringOutOfBounds)"

fun cmdstring_copy :: "string \<Rightarrow> string \<Rightarrow> command_error + string" where
  \<comment> \<open>The loop \<open>while ((c = *current_arg++)) *ptr++ = c\<close>.\<close>
  "cmdstring_copy buf [] = Inr buf"
| "cmdstring_copy buf (c # cs) =
     (case cmdstring_put buf c of Inl e \<Rightarrow> Inl e | Inr buf1 \<Rightarrow> cmdstring_copy buf1 cs)"

fun runcmd_join :: "string \<Rightarrow> argv_cell option list \<Rightarrow> command_error + string" where
  \<comment> \<open>The loop over \<open>cmd->argv[0]\<close> to \<open>cmd->argv[cmd->argc - 1]\<close>.\<close>
  "runcmd_join buf [] = Inr buf"
| "runcmd_join buf (cell # cells) =
     (case cell of
        None \<Rightarrow> Inl ArgvOutOfBounds
      | Some Uninit \<Rightarrow> Inl UninitialisedRead
      | Some Null \<Rightarrow> Inl NullDereference
      | Some (Arg current_arg) \<Rightarrow>
          (case cmdstring_copy buf current_arg of
             Inl e \<Rightarrow> Inl e
           | Inr buf1 \<Rightarrow>
               (case cmdstring_put buf1 CHR '' '' of
                  Inl e \<Rightarrow> Inl e
                | Inr buf2 \<Rightarrow> runcmd_join buf2 cells)))"

definition runcmd_cmdstring :: "command \<Rightarrow> command_error + string" where
  \<comment> \<open>Lines 360-372: the string in \<open>cmdstring\<close> once the terminating NUL is written.\<close>
  "runcmd_cmdstring cmd =
     (let n = nat (argc cmd);
          cells = take n (map Some (argv cmd) @ replicate n None)
      in case runcmd_join [] cells of
           Inl e \<Rightarrow> Inl e
         | Inr buf \<Rightarrow>
             (case cmdstring_put buf NUL of Inl e \<Rightarrow> Inl e | Inr _ \<Rightarrow> Inr buf))"

text \<open>
  \<open>searchpath\<close>, \<open>isShellScript\<close> and \<open>getInterpreter\<close> look at the file system and at
  \<open>PATH\<close>; what they return is given by an environment, as is \<open>getenv("SHELL")\<close>.
  \<open>fixedCmd\<close> works on a copy of the command string in which \<open>strtok\<close> has put a NUL
  after the first word; the copy is modelled with its bytes, NULs included.  Its
  counters are \<open>uint8_t\<close>.  In the branch for a script the block has \<open>commandSize + 1\<close>
  bytes and the last store is at index \<open>commandSize + 1\<close>; in the other branch
  \<open>strcat\<close> reads the block that \<open>malloc\<close> has just returned.
\<close>

record fs_env =
  env_SHELL :: "string option"
  searchpath :: "string \<Rightarrow> string option"
  isShellScript :: "string \<Rightarrow> bool"
  getInterpreter :: "string \<Rightarrow> string"

definition c_string_at :: "string \<Rightarrow> nat \<Rightarrow> string" where
  \<comment> \<open>The C string that starts at byte \<open>i\<close> of a buffer.\<close>
  "c_string_at bytes i = takeWhile (\<lambda>c. c \<noteq> NUL) (drop i bytes)"

definition fixedCmd :: "fs_env \<Rightarrow> string \<Rightarrow> command_error + string" where
  "fixedCmd env cmdStr =
     (let lead = takeWhile (\<lambda>c. c = CHR '' '') cmdStr;
          rest = dropWhile (\<lambda>c. c = CHR '' '') cmdStr
      in if rest = [] then Inl NullDereference
         else
           let cmd = takeWhile (\<lambda>c. c \<noteq> CHR '' '') rest;
               p = length lead + length cmd;
               cmdCpy = (if p < length cmdStr then cmdStr[p := NUL] else cmdStr) @ [NUL];
               size = (length cmd + 1) mod 256;
               args = (if length cmdStr - length cmd = 0 then None
                       else Some (c_string_at cmdCpy size))
           in case searchpath env cmd of
                None \<Rightarrow> Inr (c_string_at cmdCpy 0)
              | Some abs_path \<Rightarrow>
                  if isShellScript env abs_path then
                    let interpreter = getInterpreter env abs_path;
                        commandSize0 = (length interpreter + 1 + length abs_path) mod 256;
                        commandSize = (case args of None \<Rightarrow> commandSize0
                                       | Some a \<Rightarrow> (commandSize0 + 1 + length a) mod 256);
                        rawCommand = interpreter @ '' '' @ abs_path @
                                     (case args of None \<Rightarrow> [] | Some a \<Rightarrow> '' '' @ a)
                    in if \<not> length rawCommand + 1 \<le> commandSize + 1 then Inl HeapOutOfBounds
                       else if \<not> commandSize + 1 < commandSize + 1 then Inl HeapOutOfBounds
                       else Inr rawCommand
                  else Inl UninitialisedRead)"

definition runcmd :: "fs_env \<Rightarrow> command \<Rightarrow> command_error + exec_call" where
  "runcmd env cmd =
     (case runcmd_cmdstring cmd of
        Inl e \<Rightarrow> Inl e
      | Inr cmdstring \<Rightarrow>
          (case fixedCmd env cmdstring of
             Inl e \<Rightarrow> Inl e
           | Inr fullcmd \<Rightarrow> Inr (command_shell (env_SHELL env) (Some fullcmd) (name cmd))))"

definition no_such_file :: fs_env where
  \<comment> \<open>An environment in which \<open>searchpath\<close> finds nothing.\<close>
  "no_such_file = \<lparr>env_SHELL = None, searchpath = (\<lambda>_. None), isShellScript = (\<lambda>_. False),
                    getInterpreter = (\<lambda>_. [])\<rparr>"

definition argv_room :: "command \<Rightarrow> string list \<Rightarrow> nat \<Rightarrow> bool" where
  \<comment> \<open>The first cells of the array are the arguments \<open>args\<close>, \<open>argc\<close> counts them, and
     \<open>room\<close> more cells are allocated after them.\<close>
  "argv_room cmd args room \<longleftrightarrow>
     argc cmd = int (length args) \<and> length (argv cmd) = nat (argv_size cmd) \<and>
     length args + room \<le> length (argv cmd) \<and> take (length args) (argv cmd) = map Arg args"

definition argv_holds :: "command \<Rightarrow> string list \<Rightarrow> bool" where
  \<comment> \<open>The invariant of C9: the arguments in order in the cells \<open>0\<close> to \<open>argc - 1\<close>, and
     \<open>NULL\<close> in the cell \<open>argc\<close>, which is inside the array.\<close>
  "argv_holds cmd args \<longleftrightarrow> argv_room cmd args 1 \<and> argv cmd ! length args = Null"

section \<open>File system nodes: \<open>fsys-hash.c\<close>\<close>

text \<open>
  The table is an array of \<open>BINS\<close> chains.  A chain is the list of its nodes in the
  order of the \<open>next\<close> pointers, so that a new node, linked behind the last one, is
  appended; a pointer to a node is the index of its bin and its position in the chain,
  which no operation changes.  The owners and the trigger interests of a node are lists
  of package names; the two hashes are \<open>NULL\<close>, the marker \<open>EMPTYHASHFLAG\<close>, or a string.
\<close>

definition BINS :: nat where
  "BINS = 262139"

datatype hash_ptr = HashNull | EMPTYHASHFLAG | Hash string

record diversion =
  useinstead :: "(nat \<times> nat) option"
  camefrom :: "(nat \<times> nat) option"
  pkgset :: "string option"

record file_stat =
  uid :: nat
  gid :: nat
  mode :: nat

record fsys_namenode =
  fnn_name :: string
  packages :: "string list"
  divert :: "diversion option"
  statoverride :: "file_stat option"
  trig_interested :: "string list"
  flags :: "32 word"
  oldhash :: hash_ptr
  newhash :: hash_ptr
  file_ondisk_id :: "(nat \<times> nat) option"

record fsys_hash =
  bins :: "nat \<Rightarrow> fsys_namenode list"
  nfiles :: int

datatype fsys_error = Internerr string

definition FHFF_NOCOPY :: "32 word" where
  \<comment> \<open>\<open>DPKG_BIT(0)\<close>; the header among the sources declares the bit as \<open>fnn_nocopy\<close>.\<close>
  "FHFF_NOCOPY = 1"

definition FHFF_NONE :: "32 word" where
  \<comment> \<open>\<open>DPKG_BIT(1)\<close>; the header among the sources declares the bit as \<open>fnn_nonew\<close>.\<close>
  "FHFF_NONE = 2"

fun path_skip_slash_dotslash :: "string \<Rightarrow> string" where
  \<comment> \<open>Modelled from the spec: \<open>path_skip_slash_dotslash\<close> of \<open>dpkg/path.c\<close> is not among
     the sources; it strips leading \<open>/\<close> and \<open>./\<close> pairs.\<close>
  "path_skip_slash_dotslash [] = []"
| "path_skip_slash_dotslash (c # cs) =
     (if c = CHR ''/'' then path_skip_slash_dotslash cs
      else if c = CHR ''.'' \<and> cs \<noteq> [] \<and> hd cs = CHR ''/'' then path_skip_slash_dotslash cs
      else c # cs)"

definition fsys_hash_clear :: "fsys_namenode \<Rightarrow> fsys_namenode" where
  \<comment> \<open>The body of the inner loop of \<open>fsys_hash_init\<close>.\<close>
  "fsys_hash_clear fnn =
     fnn\<lparr>flags := 0, oldhash := HashNull, newhash := EMPTYHASHFLAG, file_ondisk_id := None\<rparr>"

definition fsys_hash_init :: "fsys_hash \<Rightarrow> fsys_hash" where
  "fsys_hash_init tbl =
     tbl\<lparr>bins := (\<lambda>i. if i < BINS then map fsys_hash_clear (bins tbl i) else bins tbl i)\<rparr>"

definition fsys_hash_reset :: "fsys_hash \<Rightarrow> fsys_hash" where
  "fsys_hash_reset tbl = tbl\<lparr>bins := (\<lambda>i. if i < BINS then [] else bins tbl i), nfiles := 0\<rparr>"

definition fsys_hash_entries :: "fsys_hash \<Rightarrow> int" where
  "fsys_hash_entries tbl = nfiles tbl"

fun chain_find :: "string \<Rightarrow> fsys_namenode list \<Rightarrow> nat \<Rightarrow> fsys_error + nat option" where
  \<comment> \<open>The \<open>while (*pointerp)\<close> loop: the position of the node found, or \<open>None\<close> at the
     end of the chain.\<close>
  "chain_find key [] i = Inr None"
| "chain_find key (fnn # fnns) i =
     (if fnn_name fnn = [] \<or> hd (fnn_name fnn) \<noteq> CHR ''/'' then Inl (Internerr (fnn_name fnn))
      else if tl (fnn_name fnn) = key then Inr (Some i)
      else chain_find key fnns (Suc i))"

definition fsys_hash_find_node ::
  "(string \<Rightarrow> 32 word) \<Rightarrow> fsys_hash \<Rightarrow> string \<Rightarrow> 32 word
     \<Rightarrow> fsys_error + ((nat \<times> nat) option \<times> fsys_hash)" where
  \<comment> \<open>\<open>str_fnv_hash\<close> is not among the sources and is a parameter.  With \<open>FHFF_NOCOPY\<close>
     the name of a new node is the caller's string from one byte before the stripped
     name, if that byte is a slash.\<close>
  "fsys_hash_find_node str_fnv_hash tbl orig_name flgs =
     (let name1 = path_skip_slash_dotslash orig_name;
          b = unat (str_fnv_hash name1) mod BINS
      in case chain_find name1 (bins tbl b) 0 of
           Inl e \<Rightarrow> Inl e
         | Inr (Some i) \<Rightarrow> Inr (Some (b, i), tbl)
         | Inr None \<Rightarrow>
             if flgs AND FHFF_NONE \<noteq> 0 then Inr (None, tbl)
             else
               let before = length orig_name - length name1 - 1;
                   newname =
                     (if flgs AND FHFF_NOCOPY \<noteq> 0 \<and> length name1 < length orig_name \<and>
                         orig_name ! before = CHR ''/''
                      then drop before orig_name
                      else CHR ''/'' # name1);
                   newnode =
                     \<lparr>fnn_name = newname, packages = [], divert = None, statoverride = None,
                      trig_interested = [], flags = 0, oldhash = HashNull,
                      newhash = EMPTYHASHFLAG, file_ondisk_id = None\<rparr>
               in Inr (Some (b, length (bins tbl b)),
                       tbl\<lparr>bins := (bins tbl)(b := bins tbl b @ [newnode]),
                           nfiles := nfiles tbl + 1\<rparr>))"

definition node_at :: "fsys_hash \<Rightarrow> nat \<times> nat \<Rightarrow> fsys_namenode" where
  \<comment> \<open>The node a pointer returned by the table designates.\<close>
  "node_at tbl p = bins tbl (fst p) ! snd p"

definition fsys_hash_empty :: fsys_hash where
  \<comment> \<open>The static table at program start: every bin \<open>NULL\<close>, no files.\<close>
  "fsys_hash_empty = \<lparr>bins = (\<lambda>i. []), nfiles = 0\<rparr>"

definition canonical_name :: "string \<Rightarrow> bool" where
  \<comment> \<open>A slash followed by a path from which nothing is left to strip.\<close>
  "canonical_name n \<longleftrightarrow>
     (case n of [] \<Rightarrow> False
      | c # k \<Rightarrow> c = CHR ''/'' \<and> path_skip_slash_dotslash k = k)"

definition fsys_canonical :: "fsys_hash \<Rightarrow> bool" where
  "fsys_canonical tbl \<longleftrightarrow> (\<forall>b. list_all (\<lambda>fnn. canonical_name (fnn_name fnn)) (bins tbl b))"

definition sample_hash :: "string \<Rightarrow> 32 word" where
  \<comment> \<open>A hash function for the examples, in the place of \<open>str_fnv_hash\<close>.\<close>
  "sample_hash s = of_nat (length s)"

section \<open>Lemmas on the version parser\<close>

lemma digit_chr_props: "d < 10 \<Longrightarrow> c_isdigit (digit_chr d) \<and> digit_val (digit_chr d) = d"
proof -
  assume "d < 10"
  then have "d \<in> {0,1,2,3,4,5,6,7,8,9}" by auto
  then show ?thesis unfolding digit_chr_def c_isdigit_def digit_val_def by auto
qed

lemma printf_u_digits: "list_all c_isdigit (printf_u n)"
proof (induction n rule: printf_u.induct)
  case (1 n)
  show ?case
  proof (cases "n < 10")
    case True
    then show ?thesis by (subst printf_u.simps) (simp add: digit_chr_props)
  next
    case False
    with 1 show ?thesis by (subst printf_u.simps) (simp add: digit_chr_props)
  qed
qed

lemma printf_u_nonempty: "printf_u n \<noteq> []"
  by (subst printf_u.simps) simp

lemma printf_u_value: "foldl (\<lambda>a c. a * 10 + digit_val c) 0 (printf_u n) = n"
proof (induction n rule: printf_u.induct)
  case (1 n)
  show ?case
  proof (cases "n < 10")
    case True
    then show ?thesis by (subst printf_u.simps) (simp add: digit_chr_props)
  next
    case False
    with 1 show ?thesis by (subst printf_u.simps) (simp add: digit_chr_props)
  qed
qed

lemma strtol_digits_append:
  "list_all c_isdigit ds \<Longrightarrow>
   strtol_digits acc (ds @ r) = strtol_digits (foldl (\<lambda>a c. a * 10 + digit_val c) acc ds) r"
  by (induction ds arbitrary: acc) simp_all

lemma strtol_digits_stop: "r = [] \<or> \<not> c_isdigit (hd r) \<Longrightarrow> strtol_digits acc r = (acc, r)"
  by (cases r) auto

lemma strtol_printf_u:
  assumes "int n \<le> LONG_MAX" and "\<not> c_isdigit c"
  shows "strtol (printf_u n @ c # r) = (int n, c # r, False)"
proof -
  obtain d ds where ds: "printf_u n = d # ds"
    using printf_u_nonempty by (cases "printf_u n") auto
  have dig: "list_all c_isdigit (d # ds)" using printf_u_digits[of n] ds by simp
  then have d: "c_isdigit d" by simp
  then have nsp: "\<not> isspace d" "d \<noteq> CHR ''-''" "d \<noteq> CHR ''+''"
    by (auto simp: c_isdigit_def isspace_def)
  have val: "strtol_digits 0 (d # ds @ c # r) = (n, c # r)"
    using strtol_digits_append[OF dig, of 0 "c # r"] printf_u_value[of n] assms(2) d
    by (simp add: ds)
  have "0 \<le> int n" by simp
  moreover have "LONG_MIN \<le> 0" by (simp add: LONG_MIN_def)
  ultimately have lo: "\<not> int n < LONG_MIN" by linarith
  show ?thesis
    unfolding strtol_def ds using nsp d val assms(1) lo
    by (simp add: strtol_sign_def del: strtol_digits.simps)
qed

lemma strchr_None: "strchr s c = None \<longleftrightarrow> c \<notin> set s"
  by (simp add: strchr_def)

lemma dropWhile_neq_first:
  assumes "c \<notin> set pre"
  shows "dropWhile (\<lambda>x. x \<noteq> c) (pre @ c # post) = c # post"
proof -
  have "dropWhile (\<lambda>x. x \<noteq> c) (pre @ c # post) = dropWhile (\<lambda>x. x \<noteq> c) (c # post)"
    by (rule dropWhile_append2) (use assms in blast)
  then show ?thesis by simp
qed

lemma strchr_first: "c \<notin> set pre \<Longrightarrow> strchr (pre @ c # post) c = Some (c # post)"
  by (simp add: strchr_def dropWhile_neq_first)

lemma strrchr_None: "strrchr s c = None \<longleftrightarrow> c \<notin> set s"
  by (simp add: strrchr_def)

lemma strrchr_last: "c \<notin> set r \<Longrightarrow> strrchr (u @ c # r) c = Some (length u)"
  using dropWhile_neq_first[of c "rev r" "rev u"] unfolding strrchr_def by simp

lemma blank_chars:
  assumes "c_isblank c"
  shows "\<not> c_isdigit c \<and> \<not> version_char_ok c \<and> \<not> revision_char_ok c \<and> c \<noteq> CHR ''-''"
proof -
  have d: "\<not> c_isdigit c" using assms unfolding c_isblank_def
    by (elim disjE; simp add: c_isdigit_def)
  have a: "\<not> c_isalpha c" using assms unfolding c_isblank_def
    by (elim disjE; simp add: c_isalpha_def)
  have v: "strchr ''.-+~:'' c = None" using assms unfolding c_isblank_def
    by (elim disjE; simp add: strchr_def)
  have r: "strchr ''.+~'' c = None" using assms unfolding c_isblank_def
    by (elim disjE; simp add: strchr_def)
  have h: "c \<noteq> CHR ''-''" using assms unfolding c_isblank_def
    by (elim disjE; simp)
  from d a v r h show ?thesis by (simp add: version_char_ok_def revision_char_ok_def)
qed

lemma revision_chars:
  "revision_char_ok c \<Longrightarrow> c \<noteq> CHR ''-'' \<and> c \<noteq> CHR '':'' \<and> version_char_ok c"
  by (auto simp: c_isdigit_def c_isalpha_def version_char_ok_def
      revision_char_ok_def strchr_def split: if_splits)

lemma digit_chars:
  "c_isdigit c \<Longrightarrow> c \<noteq> CHR ''-'' \<and> c \<noteq> CHR '':'' \<and> version_char_ok c \<and> \<not> c_isblank c"
  by (auto simp: c_isdigit_def version_char_ok_def c_isblank_def)

lemma parseversion_check_ok:
  assumes "parseversion_check rv p r err = (0, v, e)"
  shows "v = rv \<and> e = err \<and> p \<noteq> [] \<and> c_isdigit (hd p) \<and> list_all version_char_ok (tl p) \<and>
     list_all revision_char_ok r"
proof -
  have a: "p \<noteq> []" using assms
    by (cases "p = []") (simp_all add: parseversion_check_def dpkg_put_error_def)
  have b: "c_isdigit (hd p)" using assms a
    by (cases "c_isdigit (hd p)") (simp_all add: parseversion_check_def dpkg_put_warn_def)
  have c: "list_all version_char_ok (tl p)" using assms a b
    by (cases "list_all version_char_ok (tl p)")
       (simp_all add: parseversion_check_def dpkg_put_warn_def)
  have d: "list_all revision_char_ok r" using assms a b c
    by (cases "list_all revision_char_ok r")
       (simp_all add: parseversion_check_def dpkg_put_warn_def)
  from assms a b c d show ?thesis by (simp add: parseversion_check_def)
qed

lemma parseversion_check_pass:
  "p \<noteq> [] \<Longrightarrow> c_isdigit (hd p) \<Longrightarrow> list_all version_char_ok (tl p) \<Longrightarrow>
   list_all revision_char_ok r \<Longrightarrow> parseversion_check rv p r err = (0, rv, err)"
  by (simp add: parseversion_check_def)

lemma strrchr_Some:
  assumes "strrchr s c = Some k"
  shows "\<exists>u r. s = u @ c # r \<and> c \<notin> set r \<and> k = length u"
proof -
  have "c \<in> set s" using assms unfolding strrchr_def by (cases "c \<in> set s") simp_all
  then obtain u r where s: "s = u @ c # r" and r: "c \<notin> set r"
    using split_list_last[of c s] by blast
  have "strrchr (u @ c # r) c = Some (length u)" by (rule strrchr_last[OF r])
  with assms s have "k = length u" by simp
  with s r show ?thesis by blast
qed
lemma parseversion_split_ok:
  assumes "parseversion_split rv x endp err = (0, v, e)"
  shows "\<exists>u r. v = rv\<lparr>version := Some u, revision := Some r\<rparr> \<and> e = err \<and> u \<noteq> [] \<and>
           c_isdigit (hd u) \<and> list_all version_char_ok (tl u) \<and> list_all revision_char_ok r \<and>
           (r = [] \<longrightarrow> CHR ''-'' \<notin> set u)"
proof -
  define v0 where "v0 = take (length x - length endp) x"
  show ?thesis
  proof (cases "strrchr v0 CHR ''-''")
    case None
    with assms have "parseversion_check (rv\<lparr>version := Some v0, revision := Some []\<rparr>)
         v0 [] err = (0, v, e)"
      by (simp add: parseversion_split_def Let_def v0_def)
    note ok = parseversion_check_ok[OF this]
    have "CHR ''-'' \<notin> set v0" using None by (simp add: strrchr_None)
    with ok show ?thesis by blast
  next
    case (Some k)
    have ne: "drop (Suc k) v0 \<noteq> []"
    proof
      assume "drop (Suc k) v0 = []"
      with assms Some show False
        by (simp add: parseversion_split_def Let_def dpkg_put_error_def v0_def)
    qed
    with assms Some have "parseversion_check
         (rv\<lparr>version := Some (take k v0), revision := Some (drop (Suc k) v0)\<rparr>)
         (take k v0) (drop (Suc k) v0) err = (0, v, e)"
      by (simp add: parseversion_split_def Let_def v0_def)
    note ok = parseversion_check_ok[OF this]
    with ne show ?thesis by blast
  qed
qed

lemma parseversion_split_pass:
  assumes "u \<noteq> []" "c_isdigit (hd u)" "list_all version_char_ok (tl u)"
    "list_all revision_char_ok r" "r = [] \<longrightarrow> CHR ''-'' \<notin> set u"
  shows "parseversion_split rv (u @ (if r = [] then [] else CHR ''-'' # r)) [] err
         = (0, rv\<lparr>version := Some u, revision := Some r\<rparr>, err)"
proof (cases "r = []")
  case True
  with assms show ?thesis
    by (simp add: parseversion_split_def strrchr_def parseversion_check_pass)
next
  case False
  have "CHR ''-'' \<notin> set r" using assms(4) revision_chars by (auto simp: list_all_iff)
  from strrchr_last[OF this, of u] False assms show ?thesis
    by (simp add: parseversion_split_def parseversion_check_pass)
qed

lemma parseversion_ok:
  assumes "parseversion rv s err = (0, v, e)"
  shows "\<exists>n u r. v = rv\<lparr>epoch := word_of_int n, version := Some u, revision := Some r\<rparr> \<and>
           0 \<le> n \<and> n \<le> INT_MAX \<and> e = err \<and> u \<noteq> [] \<and>
           c_isdigit (hd u) \<and> list_all version_char_ok (tl u) \<and> list_all revision_char_ok r \<and>
           (r = [] \<longrightarrow> CHR ''-'' \<notin> set u)"
proof -
  define str where "str = dropWhile c_isblank s"
  define endp where "endp = dropWhile (\<lambda>c. \<not> c_isblank c) str"
  from assms have "\<exists>n x. parseversion_split (rv\<lparr>epoch := word_of_int n\<rparr>) x endp err = (0, v, e)
      \<and> 0 \<le> n \<and> n \<le> INT_MAX"
    unfolding parseversion_def Let_def str_def[symmetric] endp_def[symmetric] dpkg_put_error_def
    apply (simp split: if_splits option.splits prod.splits)
     apply (rule exI[of _ 0])
     apply (auto simp: INT_MAX_def)[1]
    apply fastforce
    done
  then obtain n x where sp: "parseversion_split (rv\<lparr>epoch := word_of_int n\<rparr>) x endp err = (0, v, e)"
    and n: "0 \<le> n" "n \<le> INT_MAX" by blast
  from parseversion_split_ok[OF sp] n show ?thesis by auto
qed

lemma version_body_chars:
  assumes "u \<noteq> []" "c_isdigit (hd u)" "list_all version_char_ok (tl u)"
    "list_all revision_char_ok r"
  shows "\<forall>c \<in> set (u @ (if r = [] then [] else CHR ''-'' # r)). \<not> c_isblank c"
proof -
  obtain d t where u: "u = d # t" using assms(1) by (cases u) auto
  have "\<not> c_isblank d" using assms(2) u digit_chars by auto
  moreover have "\<forall>c \<in> set t. \<not> c_isblank c"
    using assms(3) u blank_chars by (auto simp: list_all_iff)
  moreover have "\<forall>c \<in> set r. \<not> c_isblank c"
    using assms(4) blank_chars by (auto simp: list_all_iff)
  moreover have "\<not> c_isblank CHR ''-''" by (simp add: c_isblank_def)
  ultimately show ?thesis using u by auto
qed

lemma parseversion_no_blank:
  assumes "x \<noteq> []" "\<forall>c \<in> set x. \<not> c_isblank c"
  shows "parseversion rv x err =
    (case strchr x CHR '':'' of
       Some colon \<Rightarrow>
         (case strtol x of (ep, eepochcolon, erange) \<Rightarrow>
            if x = eepochcolon then
              (case dpkg_put_error err ''epoch in version is empty'' of
                 (rc, e) \<Rightarrow> (rc, rv, e))
            else if colon \<noteq> eepochcolon then
              (case dpkg_put_error err ''epoch in version is not number'' of
                 (rc, e) \<Rightarrow> (rc, rv, e))
            else if ep < 0 then
              (case dpkg_put_error err ''epoch in version is negative'' of
                 (rc, e) \<Rightarrow> (rc, rv, e))
            else if ep > INT_MAX \<or> erange then
              (case dpkg_put_error err ''epoch in version is too big'' of
                 (rc, e) \<Rightarrow> (rc, rv, e))
            else if tl colon = [] then
              (case dpkg_put_error err ''nothing after colon in version number'' of
                 (rc, e) \<Rightarrow> (rc, rv, e))
            else parseversion_split (rv\<lparr>epoch := word_of_int ep\<rparr>) (tl colon) [] err)
     | None \<Rightarrow> parseversion_split (rv\<lparr>epoch := 0\<rparr>) x [] err)"
proof -
  have a: "dropWhile c_isblank x = x" using assms by (cases x) auto
  have b: "dropWhile (\<lambda>c. \<not> c_isblank c) x = []" using assms(2) by (simp add: dropWhile_eq_Nil_conv)
  show ?thesis unfolding parseversion_def a Let_def b using assms(1) by simp
qed

lemma parseversion_plain:
  assumes "u \<noteq> []" "c_isdigit (hd u)" "list_all version_char_ok (tl u)"
    "list_all revision_char_ok r" "r = [] \<longrightarrow> CHR ''-'' \<notin> set u" "CHR '':'' \<notin> set u"
  shows "parseversion rv (u @ (if r = [] then [] else CHR ''-'' # r)) err
         = (0, rv\<lparr>epoch := 0, version := Some u, revision := Some r\<rparr>, err)"
proof -
  let ?b = "u @ (if r = [] then [] else CHR ''-'' # r)"
  have nb: "\<forall>c \<in> set ?b. \<not> c_isblank c" by (rule version_body_chars[OF assms(1-4)])
  have ne: "?b \<noteq> []" using assms(1) by simp
  have "CHR '':'' \<notin> set r" using assms(4) revision_chars by (auto simp: list_all_iff)
  then have nc: "strchr ?b CHR '':'' = None" using assms(6) by (simp add: strchr_None)
  show ?thesis
    unfolding parseversion_no_blank[OF ne nb] nc
    using parseversion_split_pass[OF assms(1-5), of "rv\<lparr>epoch := 0\<rparr>" err] by simp
qed

lemma parseversion_prefixed:
  assumes "u \<noteq> []" "c_isdigit (hd u)" "list_all version_char_ok (tl u)"
    "list_all revision_char_ok r" "r = [] \<longrightarrow> CHR ''-'' \<notin> set u" "int n \<le> INT_MAX"
  shows "parseversion rv (printf_u n @ CHR '':'' # u @ (if r = [] then [] else CHR ''-'' # r)) err
         = (0, rv\<lparr>epoch := word_of_int (int n), version := Some u, revision := Some r\<rparr>, err)"
proof -
  let ?b = "u @ (if r = [] then [] else CHR ''-'' # r)"
  let ?x = "printf_u n @ CHR '':'' # ?b"
  have nb: "\<forall>c \<in> set ?b. \<not> c_isblank c" by (rule version_body_chars[OF assms(1-4)])
  have dg: "\<forall>c \<in> set (printf_u n). c_isdigit c" using printf_u_digits[of n] by (simp add: list_all_iff)
  then have nbp: "\<forall>c \<in> set (printf_u n). \<not> c_isblank c" using digit_chars by blast
  have "\<not> c_isblank CHR '':''" by (simp add: c_isblank_def)
  with nb nbp have nbx: "\<forall>c \<in> set ?x. \<not> c_isblank c" by auto
  have ne: "?x \<noteq> []" by simp
  have "CHR '':'' \<notin> set (printf_u n)" using dg digit_chars by blast
  then have col: "strchr ?x CHR '':'' = Some (CHR '':'' # ?b)" by (rule strchr_first)
  have "\<not> c_isdigit CHR '':''" by (simp add: c_isdigit_def)
  moreover have "int n \<le> LONG_MAX" using assms(6) by (simp add: INT_MAX_def LONG_MAX_def)
  ultimately have st: "strtol ?x = (int n, CHR '':'' # ?b, False)" using strtol_printf_u by blast
  have neq: "?x \<noteq> CHR '':'' # ?b" using printf_u_nonempty[of n] by simp
  have bne: "?b \<noteq> []" using assms(1) by simp
  show ?thesis
    unfolding parseversion_no_blank[OF ne nbx] col st
    using parseversion_split_pass[OF assms(1-5), of "rv\<lparr>epoch := word_of_int (int n)\<rparr>" err]
      neq assms(1) assms(6)
    by simp
qed





lemma parseversion_trimmed:
  assumes "str = dropWhile c_isblank s" "str \<noteq> []"
    "dropWhile c_isblank (dropWhile (\<lambda>c. \<not> c_isblank c) str) = []"
  shows "parseversion rv s err =
    (case strchr str CHR '':'' of
       Some colon \<Rightarrow>
         (case strtol str of (ep, eepochcolon, erange) \<Rightarrow>
            if str = eepochcolon then
              (-1, rv, err\<lparr>err_type := DPKG_MSG_ERROR, err_str := Some ''epoch in version is empty''\<rparr>)
            else if colon \<noteq> eepochcolon then
              (-1, rv, err\<lparr>err_type := DPKG_MSG_ERROR, err_str := Some ''epoch in version is not number''\<rparr>)
            else if ep < 0 then
              (-1, rv, err\<lparr>err_type := DPKG_MSG_ERROR, err_str := Some ''epoch in version is negative''\<rparr>)
            else if ep > INT_MAX \<or> erange then
              (-1, rv, err\<lparr>err_type := DPKG_MSG_ERROR, err_str := Some ''epoch in version is too big''\<rparr>)
            else if tl colon = [] then
              (-1, rv, err\<lparr>err_type := DPKG_MSG_ERROR,
                           err_str := Some ''nothing after colon in version number''\<rparr>)
            else parseversion_split (rv\<lparr>epoch := word_of_int ep\<rparr>) (tl colon)
                   (dropWhile (\<lambda>c. \<not> c_isblank c) str) err)
     | None \<Rightarrow> parseversion_split (rv\<lparr>epoch := 0\<rparr>) str
                 (dropWhile (\<lambda>c. \<not> c_isblank c) str) err)"
proof -
  have a: "dropWhile c_isblank s = str" using assms(1) by simp
  show ?thesis
  proof (cases "strchr str CHR '':''")
    case None
    show ?thesis unfolding parseversion_def a Let_def assms(3) None by (simp add: assms(2))
  next
    case (Some colon)
    obtain ep ee er where st: "strtol str = (ep, ee, er)" by (cases "strtol str") auto
    show ?thesis unfolding parseversion_def a Let_def assms(3) Some st
      by (simp add: assms(2) dpkg_put_error_def)
  qed
qed


lemma parseversion_check_version: "fst (snd (parseversion_check rv p r err)) = rv"
  by (simp add: parseversion_check_def dpkg_put_error_def dpkg_put_warn_def)

lemma parseversion_split_result:
  assumes "parseversion_split rv x endp err = (rc, v, e)"
    and b: "b = take (length x - length endp) x"
  shows "(CHR ''-'' \<notin> set b \<longrightarrow> version v = Some b \<and> revision v = Some []) \<and>
     (\<forall>u r. b = u @ CHR ''-'' # r \<and> CHR ''-'' \<notin> set r \<longrightarrow> version v = Some u \<and>
        (if r = [] then rc = -1 \<and> err_type e = DPKG_MSG_ERROR \<and>
                        err_str e = Some ''revision number is empty''
         else revision v = Some r))"
proof (intro conjI allI impI)
  assume "CHR ''-'' \<notin> set b"
  then have n: "strrchr b CHR ''-'' = None" by (simp add: strrchr_None)
  have "v = fst (snd (parseversion_split rv x endp err))" using assms(1) by simp
  also have "\<dots> = rv\<lparr>version := Some b, revision := Some []\<rparr>"
    unfolding parseversion_split_def Let_def b[symmetric] n
    by (simp add: parseversion_check_version)
  finally show "version v = Some b" "revision v = Some []" by simp_all
next
  fix u r
  assume h: "b = u @ CHR ''-'' # r \<and> CHR ''-'' \<notin> set r"
  then have n: "strrchr b CHR ''-'' = Some (length u)" using strrchr_last[of "CHR ''-''" r u] by simp
  have tk: "take (length u) b = u" "drop (Suc (length u)) b = r" using h by simp_all
  have eq: "(rc, v, e) =
     (if r = [] then (-1, rv\<lparr>version := Some u\<rparr>,
                      err\<lparr>err_type := DPKG_MSG_ERROR, err_str := Some ''revision number is empty''\<rparr>)
      else parseversion_check (rv\<lparr>version := Some u, revision := Some r\<rparr>) u r err)"
    unfolding assms(1)[symmetric] parseversion_split_def Let_def b[symmetric] n
    by (simp add: tk dpkg_put_error_def)
  show "version v = Some u"
  proof (cases "r = []")
    case True
    with eq show ?thesis by simp
  next
    case False
    with eq have "v = fst (snd (parseversion_check (rv\<lparr>version := Some u, revision := Some r\<rparr>) u r err))"
      by (metis fst_conv snd_conv)
    then show ?thesis by (simp add: parseversion_check_version)
  qed
  show "if r = [] then rc = -1 \<and> err_type e = DPKG_MSG_ERROR \<and>
                        err_str e = Some ''revision number is empty''
         else revision v = Some r"
  proof (cases "r = []")
    case True
    with eq show ?thesis by simp
  next
    case False
    with eq have "v = fst (snd (parseversion_check (rv\<lparr>version := Some u, revision := Some r\<rparr>) u r err))"
      by (metis fst_conv snd_conv)
    then show ?thesis using False by (simp add: parseversion_check_version)
  qed
qed

lemma take_minus_dropWhile: "take (length xs - length (dropWhile P xs)) xs = takeWhile P xs"
proof -
  have "length xs = length (takeWhile P xs) + length (dropWhile P xs)"
    using takeWhile_dropWhile_id[of P xs] by (metis length_append)
  then have "length xs - length (dropWhile P xs) = length (takeWhile P xs)" by simp
  then show ?thesis using takeWhile_eq_take[of P xs] by simp
qed

lemma parseversion_reaches_split:
  assumes "parseversion rv s err = (rc, v, e)"
    and "rc = 0 \<or> err_str e \<notin> Some ` parseversion_early_errors"
  shows "\<exists>rv' x endp. parseversion rv s err = parseversion_split rv' x endp err \<and>
           take (length x - length endp) x = text_after_epoch s"
proof -
  define str where "str = dropWhile c_isblank s"
  define endp where "endp = dropWhile (\<lambda>c. \<not> c_isblank c) str"
  define tok where "tok = takeWhile (\<lambda>c. \<not> c_isblank c) str"
  have "\<forall>m \<in> parseversion_early_errors.
      parseversion rv s err \<noteq> (-1, rv, err\<lparr>err_type := DPKG_MSG_ERROR, err_str := Some m\<rparr>)"
  proof (intro ballI notI)
    fix m assume m: "m \<in> parseversion_early_errors"
      and "parseversion rv s err = (-1, rv, err\<lparr>err_type := DPKG_MSG_ERROR, err_str := Some m\<rparr>)"
    with assms(1) have "rc = -1" "err_str e = Some m" by auto
    with assms(2) m show False by auto
  qed
  then have early:
    "parseversion rv s err \<noteq> (-1, rv, err\<lparr>err_type := DPKG_MSG_ERROR,
        err_str := Some ''version string is empty''\<rparr>)"
    "parseversion rv s err \<noteq> (-1, rv, err\<lparr>err_type := DPKG_MSG_ERROR,
        err_str := Some ''version string has embedded spaces''\<rparr>)"
    "parseversion rv s err \<noteq> (-1, rv, err\<lparr>err_type := DPKG_MSG_ERROR,
        err_str := Some ''epoch in version is empty''\<rparr>)"
    "parseversion rv s err \<noteq> (-1, rv, err\<lparr>err_type := DPKG_MSG_ERROR,
        err_str := Some ''epoch in version is not number''\<rparr>)"
    "parseversion rv s err \<noteq> (-1, rv, err\<lparr>err_type := DPKG_MSG_ERROR,
        err_str := Some ''epoch in version is negative''\<rparr>)"
    "parseversion rv s err \<noteq> (-1, rv, err\<lparr>err_type := DPKG_MSG_ERROR,
        err_str := Some ''epoch in version is too big''\<rparr>)"
    "parseversion rv s err \<noteq> (-1, rv, err\<lparr>err_type := DPKG_MSG_ERROR,
        err_str := Some ''nothing after colon in version number''\<rparr>)"
    unfolding parseversion_early_errors_def by simp_all
  have ne: "str \<noteq> []"
  proof
    assume "str = []"
    then have "parseversion rv s err =
       (-1, rv, err\<lparr>err_type := DPKG_MSG_ERROR, err_str := Some ''version string is empty''\<rparr>)"
      unfolding parseversion_def Let_def str_def[symmetric] by (simp add: dpkg_put_error_def)
    with early show False by simp
  qed
  have sp: "dropWhile c_isblank endp = []"
  proof (rule ccontr)
    assume "dropWhile c_isblank endp \<noteq> []"
    then have "parseversion rv s err =
       (-1, rv, err\<lparr>err_type := DPKG_MSG_ERROR,
                    err_str := Some ''version string has embedded spaces''\<rparr>)"
      unfolding parseversion_def Let_def str_def[symmetric] endp_def[symmetric] using ne
      by (simp add: dpkg_put_error_def)
    with early show False by simp
  qed
  have tr: "str = tok @ endp" by (simp add: tok_def endp_def)
  have tk: "take (length str - length endp) str = tok"
    unfolding endp_def tok_def by (rule take_minus_dropWhile)
  have tae: "text_after_epoch s = (case strchr tok CHR '':'' of None \<Rightarrow> tok | Some colon \<Rightarrow> tl colon)"
    unfolding text_after_epoch_def tok_def str_def Let_def by (rule refl)
  note pt = parseversion_trimmed[OF str_def ne sp[unfolded endp_def], of rv err, folded endp_def]
  show ?thesis
  proof (cases "CHR '':'' \<in> set str")
    case False
    then have n: "strchr str CHR '':'' = None" by (simp add: strchr_None)
    have "CHR '':'' \<notin> set tok" using False tr by auto
    then have "text_after_epoch s = tok" by (simp add: tae strchr_def)
    then show ?thesis using pt n tk by auto
  next
    case True
    have "\<forall>c \<in> set endp. c_isblank c" using sp by (simp add: dropWhile_eq_Nil_conv)
    moreover have "\<not> c_isblank CHR '':''" by (simp add: c_isblank_def)
    ultimately have "CHR '':'' \<notin> set endp" by blast
    with True tr have intok: "CHR '':'' \<in> set tok" by auto
    define c' where "c' = dropWhile (\<lambda>x. x \<noteq> CHR '':'') tok"
    have c'ne: "c' \<noteq> []" using intok by (simp add: c'_def dropWhile_eq_Nil_conv)
    have "dropWhile (\<lambda>x. x \<noteq> CHR '':'') (tok @ endp) = c' @ endp"
      unfolding c'_def by (rule dropWhile_append1[OF intok]) simp
    then have col: "strchr str CHR '':'' = Some (c' @ endp)" using True tr by (simp add: strchr_def)
    have tlc: "tl (c' @ endp) = tl c' @ endp" using c'ne by simp
    have tae': "text_after_epoch s = tl c'" using intok by (simp add: tae strchr_def c'_def)
    have tk': "take (length (tl c' @ endp) - length endp) (tl c' @ endp) = tl c'" by simp
    obtain ep ee er where st: "strtol str = (ep, ee, er)" by (cases "strtol str") auto
    have "parseversion rv s err =
        parseversion_split (rv\<lparr>epoch := word_of_int ep\<rparr>) (tl (c' @ endp)) endp err"
      using pt early unfolding col st
      by (simp split: if_splits)
    then have "parseversion rv s err =
        parseversion_split (rv\<lparr>epoch := word_of_int ep\<rparr>) (tl c' @ endp) endp err"
      unfolding tlc .
    with tk' tae' show ?thesis by metis
  qed
qed




section \<open>Claims on the version parser\<close>

lemmas parseversion_eval =
  parseversion_def parseversion_split_def parseversion_check_def c_isblank_def strchr_def
  strrchr_def strtol_def strtol_sign_def isspace_def c_isdigit_def c_isalpha_def
  dpkg_put_error_def dpkg_put_warn_def digit_val_def INT_MAX_def LONG_MAX_def LONG_MIN_def
  version_char_ok_def revision_char_ok_def dpkg_version_blank_def DPKG_ERROR_INIT_def

lemmas varbufversion_eval =
  varbufversion_def has_colon_def str_is_set_def strchr_def digit_chr_def printf_u.simps

text \<open>
  C1, as amended.  A version that \<open>parseversion\<close> has accepted is reproduced when it is
  formatted by \<open>varbufversion\<close> and the result is parsed again: the second parse succeeds
  and gives the same epoch, upstream version and revision.  The mode is \<open>vdew_nonambig\<close>
  or \<open>vdew_always\<close>, or it is \<open>vdew_never\<close> and the version has epoch zero and no colon in
  its upstream version.
\<close>

theorem parseversion_varbufversion_roundtrip:
  assumes "parseversion rv s err = (0, v, e)"
    and "vdew = vdew_never \<longrightarrow> epoch v = 0 \<and> \<not> has_colon (version v)"
  shows "parseversion rv' (varbufversion [] v vdew) err' = (0, v, err')"
proof -
  from parseversion_ok[OF assms(1)] obtain n u r where
    v: "v = rv\<lparr>epoch := word_of_int n, version := Some u, revision := Some r\<rparr>"
    and n: "0 \<le> n" "n \<le> INT_MAX"
    and p: "u \<noteq> []" "c_isdigit (hd u)" "list_all version_char_ok (tl u)"
      "list_all revision_char_ok r" "r = [] \<longrightarrow> CHR ''-'' \<notin> set u"
    by blast
  have un: "unat (word_of_int n :: 32 word) = nat n"
    using n by (simp add: INT_MAX_def unat_eq_nat_uint uint_word_of_int)
  have wb: "(word_of_int (int (nat n)) :: 32 word) = word_of_int n" using n by simp
  have veq: "rv'\<lparr>epoch := word_of_int n, version := Some u, revision := Some r\<rparr> = v"
    unfolding v by (cases rv; cases rv') simp
  have nn: "int (nat n) \<le> INT_MAX" using n by simp
  have rc: "CHR '':'' \<notin> set r" using p(4) revision_chars by (auto simp: list_all_iff)
  let ?b = "u @ (if r = [] then [] else CHR ''-'' # r)"
  have pre: "parseversion rv' (printf_u (nat n) @ CHR '':'' # ?b) err' = (0, v, err')"
    using parseversion_prefixed[OF p nn, of rv' err'] wb veq by simp
  show ?thesis
  proof (cases "vdew \<noteq> vdew_always \<and> word_of_int n = (0 :: 32 word) \<and> CHR '':'' \<notin> set u")
    case True
    then have fmt: "varbufversion [] v vdew = ?b"
      using rc
      by (cases vdew) (simp_all add: varbufversion_def v has_colon_def strchr_None str_is_set_def)
    from True have "parseversion rv' ?b err' = (0, v, err')"
      using parseversion_plain[OF p, of rv' err'] veq by simp
    with fmt show ?thesis by simp
  next
    case False
    then have fmt: "varbufversion [] v vdew = printf_u (nat n) @ CHR '':'' # ?b"
      using rc assms(2) un
      by (cases vdew) (auto simp: varbufversion_def v has_colon_def strchr_None str_is_set_def)
    with pre show ?thesis by simp
  qed
qed

theorem parseversion_varbufversion_roundtrip_witness:
  "parseversion dpkg_version_blank ''1:2.0-3'' DPKG_ERROR_INIT =
     (0, \<lparr>epoch = 1, version = Some ''2.0'', revision = Some ''3''\<rparr>, DPKG_ERROR_INIT) \<and>
   parseversion dpkg_version_blank
     (varbufversion [] \<lparr>epoch = 1, version = Some ''2.0'', revision = Some ''3''\<rparr> vdew_always)
     DPKG_ERROR_INIT =
     (0, \<lparr>epoch = 1, version = Some ''2.0'', revision = Some ''3''\<rparr>, DPKG_ERROR_INIT)"
proof -
  have h: "parseversion dpkg_version_blank ''1:2.0-3'' DPKG_ERROR_INIT =
     (0, \<lparr>epoch = 1, version = Some ''2.0'', revision = Some ''3''\<rparr>, DPKG_ERROR_INIT)"
    by (simp add: parseversion_eval)
  have m: "vdew_always = vdew_never \<longrightarrow>
      epoch \<lparr>epoch = 1 :: 32 word, version = Some ''2.0'', revision = Some ''3''\<rparr> = 0 \<and>
      \<not> has_colon (version \<lparr>epoch = 1 :: 32 word, version = Some ''2.0'', revision = Some ''3''\<rparr>)"
    by simp
  from parseversion_varbufversion_roundtrip[OF h m, of dpkg_version_blank DPKG_ERROR_INIT] h
  show ?thesis by simp
qed

text \<open>
  C1 as stated fails for a version triple that no parse produces: the upstream version
  \<open>1-2\<close> with an empty revision is written as \<open>1-2\<close> and read back as upstream version
  \<open>1\<close> with revision \<open>2\<close>.  It also fails in the mode \<open>vdew_never\<close>, which leaves out the
  epoch \<open>1\<close> of the version \<open>1:2.0-3\<close>.
\<close>

theorem parseversion_varbufversion_counterexample:
  "parseversion dpkg_version_blank
     (varbufversion [] \<lparr>epoch = 0, version = Some ''1-2'', revision = Some ''''\<rparr> vdew_nonambig)
     DPKG_ERROR_INIT =
     (0, \<lparr>epoch = 0, version = Some ''1'', revision = Some ''2''\<rparr>, DPKG_ERROR_INIT) \<and>
   \<lparr>epoch = 0, version = Some ''1'', revision = Some ''2''\<rparr> \<noteq>
   \<lparr>epoch = 0 :: 32 word, version = Some ''1-2'', revision = Some ''''\<rparr> \<and>
   parseversion dpkg_version_blank
     (varbufversion [] \<lparr>epoch = 1, version = Some ''2.0'', revision = Some ''3''\<rparr> vdew_never)
     DPKG_ERROR_INIT =
     (0, \<lparr>epoch = 0, version = Some ''2.0'', revision = Some ''3''\<rparr>, DPKG_ERROR_INIT)"
  by (simp add: parseversion_eval varbufversion_eval)





text \<open>
  C6.  Once parsing is past the epoch (it succeeds, or fails with a message that is not
  one of the earlier ones), the text after the epoch prefix is split at its last hyphen:
  without a hyphen it is the upstream version and the revision is empty; with nothing
  after the last hyphen, parsing fails with the empty revision error; otherwise the part
  after the last hyphen is the revision and the part before it the upstream version.
\<close>

theorem parseversion_revision_split:
  assumes "parseversion rv s err = (rc, v, e)"
    and "rc = 0 \<or> err_str e \<notin> Some ` parseversion_early_errors"
  shows "(CHR ''-'' \<notin> set (text_after_epoch s) \<longrightarrow>
            version v = Some (text_after_epoch s) \<and> revision v = Some []) \<and>
     (\<forall>u r. text_after_epoch s = u @ CHR ''-'' # r \<and> CHR ''-'' \<notin> set r \<longrightarrow>
        version v = Some u \<and>
        (if r = [] then rc = -1 \<and> err_type e = DPKG_MSG_ERROR \<and>
                        err_str e = Some ''revision number is empty''
         else revision v = Some r))"
proof -
  from parseversion_reaches_split[OF assms] obtain rv' x endp where
    p: "parseversion rv s err = parseversion_split rv' x endp err"
    and t: "take (length x - length endp) x = text_after_epoch s" by blast
  from p assms(1) have "parseversion_split rv' x endp err = (rc, v, e)" by simp
  from parseversion_split_result[OF this t[symmetric]] show ?thesis .
qed

theorem parseversion_revision_split_witness:
  "version (fst (snd (parseversion dpkg_version_blank ''1:2.0-3-4'' DPKG_ERROR_INIT))) = Some ''2.0-3'' \<and>
   revision (fst (snd (parseversion dpkg_version_blank ''1:2.0-3-4'' DPKG_ERROR_INIT))) = Some ''4'' \<and>
   version (fst (snd (parseversion dpkg_version_blank ''2.0'' DPKG_ERROR_INIT))) = Some ''2.0'' \<and>
   revision (fst (snd (parseversion dpkg_version_blank ''2.0'' DPKG_ERROR_INIT))) = Some [] \<and>
   parseversion dpkg_version_blank ''2.0-'' DPKG_ERROR_INIT =
     (-1, \<lparr>epoch = 0, version = Some ''2.0'', revision = None\<rparr>,
      \<lparr>err_type = DPKG_MSG_ERROR, err_str = Some ''revision number is empty''\<rparr>)"
proof -
  have a: "parseversion dpkg_version_blank ''1:2.0-3-4'' DPKG_ERROR_INIT =
      (0, \<lparr>epoch = 1, version = Some ''2.0-3'', revision = Some ''4''\<rparr>, DPKG_ERROR_INIT)"
    by (simp add: parseversion_eval)
  have a2: "(0::int) = 0 \<or> err_str DPKG_ERROR_INIT \<notin> Some ` parseversion_early_errors" by simp
  have ta: "text_after_epoch ''1:2.0-3-4'' = ''2.0-3'' @ CHR ''-'' # ''4'' \<and> CHR ''-'' \<notin> set ''4''"
    by (simp add: text_after_epoch_def c_isblank_def strchr_def)
  note A = parseversion_revision_split[OF a a2, THEN conjunct2, rule_format, OF ta]
  have b: "parseversion dpkg_version_blank ''2.0'' DPKG_ERROR_INIT =
      (0, \<lparr>epoch = 0, version = Some ''2.0'', revision = Some []\<rparr>, DPKG_ERROR_INIT)"
    by (simp add: parseversion_eval)
  have tb: "CHR ''-'' \<notin> set (text_after_epoch ''2.0'')"
    by (simp add: text_after_epoch_def c_isblank_def strchr_def)
  note B = parseversion_revision_split[OF b a2, THEN conjunct1, rule_format, OF tb]
  have c: "parseversion dpkg_version_blank ''2.0-'' DPKG_ERROR_INIT =
     (-1, \<lparr>epoch = 0, version = Some ''2.0'', revision = None\<rparr>,
      \<lparr>err_type = DPKG_MSG_ERROR, err_str = Some ''revision number is empty''\<rparr>)"
    by (simp add: parseversion_eval)
  from A B a b c show ?thesis by simp
qed



text \<open>
  C10.  \<open>versiondescribe\<close> returns the literal \<open><none>\<close>, and leaves its static buffers
  alone, exactly when the version is not informative; otherwise it returns the buffer
  whose turn it is, holding what \<open>varbufversion\<close> writes for the version in the requested
  mode into an emptied buffer.  The index of the next buffer is within the array.
\<close>

theorem versiondescribe_none_or_varbufversion:
  assumes "bufnum st < length (bufs st)"
  shows "(fst (versiondescribe st ver vdew) = Literal ''<none>'' \<longleftrightarrow>
            \<not> dpkg_version_is_informative ver) \<and>
     (\<not> dpkg_version_is_informative ver \<longrightarrow>
        versiondescribe st ver vdew = (Literal ''<none>'', st) \<and>
        deref (snd (versiondescribe st ver vdew)) (fst (versiondescribe st ver vdew)) = ''<none>'') \<and>
     (dpkg_version_is_informative ver \<longrightarrow>
        fst (versiondescribe st ver vdew) = Bufs (bufnum st) \<and>
        deref (snd (versiondescribe st ver vdew)) (fst (versiondescribe st ver vdew)) =
          varbufversion [] ver vdew)"
  using assms by (simp add: versiondescribe_def deref_def Let_def)

theorem versiondescribe_none_or_varbufversion_witness:
  "bufnum versiondescribe_init < length (bufs versiondescribe_init) \<and>
   versiondescribe versiondescribe_init dpkg_version_blank vdew_nonambig =
     (Literal ''<none>'', versiondescribe_init) \<and>
   fst (versiondescribe versiondescribe_init
          \<lparr>epoch = 1, version = Some ''2.0'', revision = Some ''3''\<rparr> vdew_nonambig) = Bufs 0 \<and>
   deref (snd (versiondescribe versiondescribe_init
                 \<lparr>epoch = 1, version = Some ''2.0'', revision = Some ''3''\<rparr> vdew_nonambig))
         (Bufs 0) = ''1:2.0-3''"
proof -
  have h: "bufnum versiondescribe_init < length (bufs versiondescribe_init)"
    by (simp add: versiondescribe_init_def)
  have n: "\<not> dpkg_version_is_informative dpkg_version_blank"
    by (simp add: dpkg_version_is_informative_def dpkg_version_blank_def str_is_set_def)
  have i: "dpkg_version_is_informative \<lparr>epoch = 1, version = Some ''2.0'', revision = Some ''3''\<rparr>"
    by (simp add: dpkg_version_is_informative_def)
  have f: "varbufversion [] \<lparr>epoch = 1, version = Some ''2.0'', revision = Some ''3''\<rparr> vdew_nonambig
      = ''1:2.0-3''"
    by (simp add: varbufversion_eval)
  note A = versiondescribe_none_or_varbufversion[OF h, of dpkg_version_blank vdew_nonambig,
      THEN conjunct2, THEN conjunct1, rule_format, OF n]
  note B = versiondescribe_none_or_varbufversion[OF h,
      of "\<lparr>epoch = 1, version = Some ''2.0'', revision = Some ''3''\<rparr>" vdew_nonambig,
      THEN conjunct2, THEN conjunct2, rule_format, OF i]
  from h A B f show ?thesis by (auto simp: versiondescribe_init_def)
qed

section \<open>Lemmas on the command structure\<close>

lemma command_init_holds: "argv_holds (command_init f n) []"
  by (simp add: argv_holds_def argv_room_def command_init_def)

lemma command_grow_argv_room:
  assumes "argv_holds cmd args" and "0 \<le> need"
  shows "argv_room (command_grow_argv cmd need) args (nat need + 1)"
proof -
  from assms(1) have a: "argc cmd = int (length args)" "length (argv cmd) = nat (argv_size cmd)"
    "length args + 1 \<le> length (argv cmd)" "take (length args) (argv cmd) = map Arg args"
    by (simp_all add: argv_holds_def argv_room_def)
  show ?thesis
  proof (cases "argv_size cmd - argc cmd \<ge> need + 1")
    case True
    then have "command_grow_argv cmd need = cmd" by (simp add: command_grow_argv_def)
    moreover have "length args + (nat need + 1) \<le> length (argv cmd)" using True a assms(2) by linarith
    ultimately show ?thesis using a by (simp add: argv_room_def)
  next
    case False
    define sz where "sz = (argv_size cmd + (need + 1)) * 2"
    have g: "command_grow_argv cmd need = cmd\<lparr>argv_size := sz, argv := m_realloc (argv cmd) (nat sz)\<rparr>"
      using False by (simp add: command_grow_argv_def Let_def sz_def)
    have big: "length (argv cmd) \<le> nat sz" using a assms(2) by (simp add: sz_def)
    then have m: "m_realloc (argv cmd) (nat sz) = argv cmd @ replicate (nat sz - length (argv cmd)) Uninit"
      by (simp add: m_realloc_def)
    have len: "length (m_realloc (argv cmd) (nat sz)) = nat sz" using big by (simp add: m)
    have room: "length args + (nat need + 1) \<le> nat sz" using a assms(2) by (simp add: sz_def)
    have tk: "take (length args) (m_realloc (argv cmd) (nat sz)) = map Arg args"
      using a by (simp add: m)
    show ?thesis unfolding g argv_room_def using a len room tk by simp
  qed
qed

lemma argv_store_arg:
  assumes "argv_room cmd args (Suc k)"
  shows "\<exists>cmd1. argv_store cmd (argc cmd) (Arg a) = Inr cmd1 \<and>
           argv_room (cmd1\<lparr>argc := argc cmd1 + 1\<rparr>) (args @ [a]) k \<and>
           filename cmd1 = filename cmd \<and> name cmd1 = name cmd"
proof -
  from assms have a: "argc cmd = int (length args)" "length (argv cmd) = nat (argv_size cmd)"
    "length args + Suc k \<le> length (argv cmd)" "take (length args) (argv cmd) = map Arg args"
    by (simp_all add: argv_room_def)
  have lt: "length args < length (argv cmd)" using a(3) by simp
  have st: "argv_store cmd (argc cmd) (Arg a) = Inr (cmd\<lparr>argv := (argv cmd)[length args := Arg a]\<rparr>)"
    using a(1) lt by (simp add: argv_store_def)
  have "take (Suc (length args)) ((argv cmd)[length args := Arg a]) =
        take (length args) ((argv cmd)[length args := Arg a]) @ [((argv cmd)[length args := Arg a]) ! length args]"
    using lt by (simp add: take_Suc_conv_app_nth)
  also have "\<dots> = map Arg args @ [Arg a]" using lt a(4) by simp
  finally have tk: "take (Suc (length args)) ((argv cmd)[length args := Arg a]) = map Arg (args @ [a])"
    by simp
  show ?thesis unfolding st using a tk by (simp add: argv_room_def)
qed

lemma argv_store_null:
  assumes "argv_room cmd args 1"
  shows "\<exists>cmd1. argv_store cmd (argc cmd) Null = Inr cmd1 \<and> argv_holds cmd1 args \<and>
           filename cmd1 = filename cmd \<and> name cmd1 = name cmd"
proof -
  from assms have a: "argc cmd = int (length args)" "length (argv cmd) = nat (argv_size cmd)"
    "length args + 1 \<le> length (argv cmd)" "take (length args) (argv cmd) = map Arg args"
    by (simp_all add: argv_room_def)
  have lt: "length args < length (argv cmd)" using a(3) by simp
  have st: "argv_store cmd (argc cmd) Null = Inr (cmd\<lparr>argv := (argv cmd)[length args := Null]\<rparr>)"
    using a(1) lt by (simp add: argv_store_def)
  show ?thesis unfolding st using a lt by (simp add: argv_holds_def argv_room_def)
qed

lemma command_copy_args_room:
  "argv_room cmd args (length as + k) \<Longrightarrow>
   \<exists>cmd1. command_copy_args cmd as = Inr cmd1 \<and> argv_room cmd1 (args @ as) k \<and>
          filename cmd1 = filename cmd \<and> name cmd1 = name cmd"
proof (induction as arbitrary: cmd args)
  case Nil
  then show ?case by simp
next
  case (Cons a as)
  then have "argv_room cmd args (Suc (length as + k))" by simp
  from argv_store_arg[OF this, of a] obtain cmd1 where
    s: "argv_store cmd (argc cmd) (Arg a) = Inr cmd1"
    and r: "argv_room (cmd1\<lparr>argc := argc cmd1 + 1\<rparr>) (args @ [a]) (length as + k)"
    and f: "filename cmd1 = filename cmd" "name cmd1 = name cmd" by blast
  from Cons.IH[OF r] obtain cmd2 where
    c: "command_copy_args (cmd1\<lparr>argc := argc cmd1 + 1\<rparr>) as = Inr cmd2"
    and r2: "argv_room cmd2 ((args @ [a]) @ as) k"
    and f2: "filename cmd2 = filename (cmd1\<lparr>argc := argc cmd1 + 1\<rparr>)"
      "name cmd2 = name (cmd1\<lparr>argc := argc cmd1 + 1\<rparr>)" by blast
  show ?case using s c r2 f f2 by simp
qed

lemma command_grow_argv_names:
  "filename (command_grow_argv cmd need) = filename cmd \<and>
   name (command_grow_argv cmd need) = name cmd"
  by (simp add: command_grow_argv_def Let_def)

lemma command_add_argl_holds:
  assumes "argv_holds cmd args"
  shows "\<exists>cmd1. command_add_argl cmd as = Inr cmd1 \<and> argv_holds cmd1 (args @ as) \<and>
           filename cmd1 = filename cmd \<and> name cmd1 = name cmd"
proof -
  have "argv_room (command_grow_argv cmd (int (length as))) args (length as + 1)"
    using command_grow_argv_room[OF assms, of "int (length as)"] by simp
  from command_copy_args_room[OF this] obtain cmd1 where
    c: "command_copy_args (command_grow_argv cmd (int (length as))) as = Inr cmd1"
    and r: "argv_room cmd1 (args @ as) 1"
    and f: "filename cmd1 = filename (command_grow_argv cmd (int (length as)))"
      "name cmd1 = name (command_grow_argv cmd (int (length as)))" by blast
  from argv_store_null[OF r] obtain cmd2 where
    "argv_store cmd1 (argc cmd1) Null = Inr cmd2" "argv_holds cmd2 (args @ as)"
    "filename cmd2 = filename cmd1" "name cmd2 = name cmd1" by blast
  then show ?thesis using c f command_grow_argv_names[of cmd "int (length as)"]
    by (simp add: command_add_argl_def Let_def)
qed

lemma command_add_argv_holds:
  assumes "argv_holds cmd args"
  shows "\<exists>cmd1. command_add_argv cmd as = Inr cmd1 \<and> argv_holds cmd1 (args @ as) \<and>
           filename cmd1 = filename cmd \<and> name cmd1 = name cmd"
  using command_add_argl_holds[OF assms, of as]
  by (simp add: command_add_argl_def command_add_argv_def)

lemma command_add_arg_holds:
  assumes "argv_holds cmd args"
  shows "\<exists>cmd1. command_add_arg cmd a = Inr cmd1 \<and> argv_holds cmd1 (args @ [a]) \<and>
           filename cmd1 = filename cmd \<and> name cmd1 = name cmd"
proof -
  have "argv_room (command_grow_argv cmd 1) args (Suc 1)"
    using command_grow_argv_room[OF assms, of 1] by simp
  from argv_store_arg[OF this, of a] obtain cmd1 where
    s: "argv_store (command_grow_argv cmd 1) (argc (command_grow_argv cmd 1)) (Arg a) = Inr cmd1"
    and r: "argv_room (cmd1\<lparr>argc := argc cmd1 + 1\<rparr>) (args @ [a]) 1"
    and f: "filename cmd1 = filename (command_grow_argv cmd 1)"
      "name cmd1 = name (command_grow_argv cmd 1)" by blast
  from argv_store_null[OF r] obtain cmd2 where
    "argv_store (cmd1\<lparr>argc := argc cmd1 + 1\<rparr>) (argc (cmd1\<lparr>argc := argc cmd1 + 1\<rparr>)) Null = Inr cmd2"
    "argv_holds cmd2 (args @ [a])"
    "filename cmd2 = filename (cmd1\<lparr>argc := argc cmd1 + 1\<rparr>)"
    "name cmd2 = name (cmd1\<lparr>argc := argc cmd1 + 1\<rparr>)" by blast
  then show ?thesis using s f command_grow_argv_names[of cmd 1]
    by (simp add: command_add_arg_def Let_def)
qed

lemma command_add_holds:
  assumes "argv_holds cmd args"
  shows "\<exists>cmd1. command_add cmd op = Inr cmd1 \<and> argv_holds cmd1 (args @ added op) \<and>
           filename cmd1 = filename cmd \<and> name cmd1 = name cmd"
  using command_add_arg_holds[OF assms] command_add_argl_holds[OF assms]
    command_add_argv_holds[OF assms]
  by (cases op) simp_all

lemma command_adds_holds:
  "argv_holds cmd args \<Longrightarrow>
   \<exists>cmd1. command_adds cmd ops = Inr cmd1 \<and> argv_holds cmd1 (args @ concat (map added ops)) \<and>
          filename cmd1 = filename cmd \<and> name cmd1 = name cmd"
proof (induction ops arbitrary: cmd args)
  case Nil
  then show ?case by simp
next
  case (Cons op ops)
  from command_add_holds[OF Cons.prems, of op] obtain cmd1 where
    a: "command_add cmd op = Inr cmd1" "argv_holds cmd1 (args @ added op)"
    "filename cmd1 = filename cmd" "name cmd1 = name cmd" by blast
  from Cons.IH[OF a(2)] obtain cmd2 where
    "command_adds cmd1 ops = Inr cmd2"
    "argv_holds cmd2 ((args @ added op) @ concat (map added ops))"
    "filename cmd2 = filename cmd1" "name cmd2 = name cmd1" by blast
  with a show ?case by simp
qed

lemma cmdstring_copy_bounds:
  "length buf \<le> 200 \<Longrightarrow> cmdstring_copy buf s =
     (if length buf + length s \<le> 200 then Inr (buf @ s) else Inl CmdstringOutOfBounds)"
  by (induction s arbitrary: buf) (simp_all add: cmdstring_put_def)

lemma runcmd_join_bounds:
  "length buf \<le> 200 \<Longrightarrow> runcmd_join buf (map (\<lambda>a. Some (Arg a)) args) =
     (if length buf + (\<Sum>a\<leftarrow>args. length a + 1) \<le> 200
      then Inr (buf @ concat (map (\<lambda>a. a @ '' '') args)) else Inl CmdstringOutOfBounds)"
proof (induction args arbitrary: buf)
  case Nil
  then show ?case by simp
next
  case (Cons a args)
  show ?case
  proof (cases "length buf + length a + 1 \<le> 200")
    case True
    then have "length (buf @ a @ '' '') \<le> 200" by simp
    from Cons.IH[OF this] True Cons.prems show ?thesis
      by (simp add: cmdstring_copy_bounds cmdstring_put_def add.assoc)
  next
    case False
    with Cons.prems show ?thesis
      by (simp add: cmdstring_copy_bounds cmdstring_put_def)
  qed
qed

lemma runcmd_cmdstring_bounds:
  assumes "argv_holds cmd args"
  shows "runcmd_cmdstring cmd =
     (if (\<Sum>a\<leftarrow>args. length a + 1) < 200
      then Inr (concat (map (\<lambda>a. a @ '' '') args)) else Inl CmdstringOutOfBounds)"
proof -
  from assms have a: "argc cmd = int (length args)" "length args < length (argv cmd)"
    "take (length args) (argv cmd) = map Arg args"
    by (simp_all add: argv_holds_def argv_room_def)
  have "take (length args) (map Some (argv cmd) @ replicate (length args) None) =
        map Some (take (length args) (argv cmd))"
    using a(2) by (simp add: take_map)
  also have "\<dots> = map (\<lambda>a. Some (Arg a)) args" by (simp add: a(3))
  finally have cells: "take (length args) (map Some (argv cmd) @ replicate (length args) None) =
        map (\<lambda>a. Some (Arg a)) args" .
  have len: "length (concat (map (\<lambda>a. a @ '' '') args)) = (\<Sum>a\<leftarrow>args. length a + 1)"
    by (induction args) simp_all
  show ?thesis
    unfolding runcmd_cmdstring_def Let_def a(1) nat_int cells
    using runcmd_join_bounds[of "[]" args] len
    by (simp add: cmdstring_put_def)
qed

lemma runcmd_exec_shell:
  "runcmd env cmd = Inr x \<Longrightarrow> \<exists>c. x = Exec DEFAULTSHELL [DEFAULTSHELL, ''-c'', c]"
  by (auto simp: runcmd_def command_shell_def str_is_unset_def str_is_set_def
      split: sum.splits)

section \<open>Claims on the command structure\<close>

text \<open>
  C9.  After \<open>command_init\<close> and any sequence of \<open>command_add_arg\<close>, \<open>command_add_argl\<close>
  and \<open>command_add_argv\<close> calls, no write has left the array, \<open>argc\<close> counts the appended
  arguments, the cells \<open>0\<close> to \<open>argc - 1\<close> hold them in the order of appending, and the
  cell \<open>argc\<close> is inside the array and holds \<open>NULL\<close>.
\<close>

theorem command_argv_invariant:
  "\<exists>cmd. command_adds (command_init f n) ops = Inr cmd \<and>
     argc cmd = int (length (concat (map added ops))) \<and>
     take (nat (argc cmd)) (argv cmd) = map Arg (concat (map added ops)) \<and>
     nat (argc cmd) < length (argv cmd) \<and>
     argv cmd ! nat (argc cmd) = Null \<and>
     length (argv cmd) = nat (argv_size cmd)"
proof -
  from command_adds_holds[OF command_init_holds, of f n ops] obtain cmd where
    c: "command_adds (command_init f n) ops = Inr cmd"
    and h: "argv_holds cmd (concat (map added ops))" by auto
  from h have "argc cmd = int (length (concat (map added ops)))"
    "take (length (concat (map added ops))) (argv cmd) = map Arg (concat (map added ops))"
    "length (concat (map added ops)) < length (argv cmd)"
    "argv cmd ! length (concat (map added ops)) = Null"
    "length (argv cmd) = nat (argv_size cmd)"
    by (simp_all add: argv_holds_def argv_room_def)
  with c show ?thesis by simp
qed

theorem command_argv_invariant_witness:
  "\<exists>cmd. command_adds (command_init ''/usr/bin/tar'' None)
       [Add_arg ''tar'', Add_argl [''-x'', ''-f'', ''-''], Add_argv [''a'', ''b'', ''c'', ''d'',
          ''e'', ''f'', ''g'', ''h'']] = Inr cmd \<and>
     argc cmd = 12 \<and>
     take (nat (argc cmd)) (argv cmd) =
       map Arg [''tar'', ''-x'', ''-f'', ''-'', ''a'', ''b'', ''c'', ''d'', ''e'', ''f'', ''g'', ''h''] \<and>
     nat (argc cmd) < length (argv cmd) \<and>
     argv cmd ! nat (argc cmd) = Null \<and>
     length (argv cmd) = nat (argv_size cmd)"
  using command_argv_invariant[of "''/usr/bin/tar''" None
      "[Add_arg ''tar'', Add_argl [''-x'', ''-f'', ''-''], Add_argv [''a'', ''b'', ''c'', ''d'',
          ''e'', ''f'', ''g'', ''h'']]"]
  by simp

text \<open>
  C8.  The copy into \<open>cmdstring\<close> has no bound check (\<open>runcmd_cmdstring_bounds\<close>: it stays
  inside the 200 bytes exactly when the lengths of the arguments, one space for each,
  and the terminating NUL fit).  For the command \<open>/bin/echo\<close> with one argument of 200
  bytes, built by \<open>command_init\<close> and \<open>command_add_arg\<close>, a byte is written outside the
  buffer, and \<open>runcmd\<close> ends there.
\<close>

theorem runcmd_cmdstring_out_of_bounds:
  "(case command_adds (command_init ''/bin/echo'' None)
          [Add_arg ''/bin/echo'', Add_arg (replicate 200 CHR ''a'')] of
      Inl e \<Rightarrow> False
    | Inr cmd \<Rightarrow> runcmd_cmdstring cmd = Inl CmdstringOutOfBounds \<and>
                 runcmd no_such_file cmd = Inl CmdstringOutOfBounds)"
proof -
  from command_adds_holds[OF command_init_holds, of "''/bin/echo''" None
      "[Add_arg ''/bin/echo'', Add_arg (replicate 200 CHR ''a'')]"]
  obtain cmd where
    c: "command_adds (command_init ''/bin/echo'' None)
          [Add_arg ''/bin/echo'', Add_arg (replicate 200 CHR ''a'')] = Inr cmd"
    and h: "argv_holds cmd [''/bin/echo'', replicate 200 CHR ''a'']" by auto
  have "runcmd_cmdstring cmd = Inl CmdstringOutOfBounds"
    unfolding runcmd_cmdstring_bounds[OF h] by simp
  then show ?thesis unfolding c by (simp add: runcmd_def)
qed

text \<open>
  C2.  \<open>runcmd\<close> never executes the argument vector: whenever it reaches an \<open>exec\<close>, the
  program is the shell and the arguments are the shell, \<open>-c\<close> and one string.  For the
  command \<open>echo\<close> with the argument \<open>a b\<close>, which \<open>command_exec\<close> would execute with
  these two arguments, \<open>runcmd\<close> builds the string \<open>echo a b \<close> and, when \<open>searchpath\<close>
  finds no such file, hands the shell the first word alone.
\<close>

theorem runcmd_argv_not_preserved:
  "(case command_adds (command_init ''echo'' None) [Add_arg ''echo'', Add_arg ''a b''] of
      Inl e \<Rightarrow> False
    | Inr cmd \<Rightarrow>
        command_exec cmd = Inr (Exec ''echo'' [''echo'', ''a b'']) \<and>
        runcmd_cmdstring cmd = Inr ''echo a b '' \<and>
        runcmd no_such_file cmd = Inr (Exec ''sh'' [''sh'', ''-c'', ''echo'']))"
  by code_simp

section \<open>Lemmas on the table of file system nodes\<close>

lemma path_skip_length: "length (path_skip_slash_dotslash p) \<le> length p"
  by (induction p) (auto intro: le_SucI)

lemma path_skip_suffix: "\<exists>pre. p = pre @ path_skip_slash_dotslash p \<and>
    (pre \<noteq> [] \<longrightarrow> last pre = CHR ''/'')"
proof (induction p)
  case Nil
  then show ?case by simp
next
  case (Cons c cs)
  from Cons obtain pre where pre: "cs = pre @ path_skip_slash_dotslash cs"
    "pre \<noteq> [] \<longrightarrow> last pre = CHR ''/''" by blast
  show ?case
  proof (cases "c = CHR ''/''")
    case True
    have "c # cs = (c # pre) @ path_skip_slash_dotslash (c # cs)" using True pre(1) by simp
    moreover have "last (c # pre) = CHR ''/''" using True pre(2) by simp
    ultimately show ?thesis by blast
  next
    case False
    show ?thesis
    proof (cases "c = CHR ''.'' \<and> cs \<noteq> [] \<and> hd cs = CHR ''/''")
      case True
      then have sk: "path_skip_slash_dotslash (c # cs) = path_skip_slash_dotslash cs" by simp
      from True obtain t where t: "cs = CHR ''/'' # t" by (cases cs) auto
      then have "path_skip_slash_dotslash cs = path_skip_slash_dotslash t" by simp
      then have "length (path_skip_slash_dotslash cs) < length cs"
        using path_skip_length[of t] t by simp
      then have "path_skip_slash_dotslash cs \<noteq> cs" by auto
      then have "pre \<noteq> []" using pre(1) by auto
      have "c # cs = (c # pre) @ path_skip_slash_dotslash (c # cs)" using sk pre(1) by simp
      moreover have "last (c # pre) = CHR ''/''" using \<open>pre \<noteq> []\<close> pre(2) by simp
      ultimately show ?thesis by blast
    next
      case F2: False
      then have "path_skip_slash_dotslash (c # cs) = c # cs" using False by auto
      then have "c # cs = [] @ path_skip_slash_dotslash (c # cs)" by simp
      then show ?thesis by blast
    qed
  qed
qed

lemma path_skip_no_slash:
  "path_skip_slash_dotslash p = [] \<or> hd (path_skip_slash_dotslash p) \<noteq> CHR ''/''"
  by (induction p) auto

lemma path_skip_idem:
  "path_skip_slash_dotslash (path_skip_slash_dotslash p) = path_skip_slash_dotslash p"
  by (induction p) auto

lemma drop_last:
  assumes "pre \<noteq> []"
  shows "drop (length pre - 1) pre = [last pre]"
proof -
  have "drop (length (butlast pre)) (butlast pre @ [last pre]) = [last pre]" by simp
  then show ?thesis using assms by simp
qed

lemma new_node_name:
  "(if c \<and> length (path_skip_slash_dotslash p) < length p \<and>
       p ! (length p - length (path_skip_slash_dotslash p) - 1) = CHR ''/''
    then drop (length p - length (path_skip_slash_dotslash p) - 1) p
    else CHR ''/'' # path_skip_slash_dotslash p) = CHR ''/'' # path_skip_slash_dotslash p"
proof (cases "c \<and> length (path_skip_slash_dotslash p) < length p \<and>
       p ! (length p - length (path_skip_slash_dotslash p) - 1) = CHR ''/''")
  case False
  then show ?thesis by auto
next
  case True
  define key where "key = path_skip_slash_dotslash p"
  from path_skip_suffix[of p] obtain pre where p: "p = pre @ key" by (auto simp: key_def)
  from True have lt: "length key < length p" by (simp add: key_def)
  with p have ne: "pre \<noteq> []" by auto
  have bf: "length p - length key - 1 = length pre - 1" using p by simp
  have "p ! (length pre - 1) = last pre" using ne p
    by (metis One_nat_def diff_less last_conv_nth length_greater_0_conv less_numeral_extra(1)
        nth_append)
  with True bf have l: "last pre = CHR ''/''" by (simp add: key_def)
  have "drop (length pre - 1) p = drop (length pre - 1) pre @ key"
    using p ne by (metis diff_le_self drop_append diff_is_0_eq drop0)
  also have "\<dots> = CHR ''/'' # key" using drop_last[OF ne] l by simp
  finally show ?thesis using True bf by (simp add: key_def)
qed

lemma chain_find_append:
  "chain_find key xs i = Inr None \<Longrightarrow>
   chain_find key (xs @ ys) i = chain_find key ys (i + length xs)"
  by (induction xs arbitrary: i) (auto split: if_splits)

lemma chain_find_Some:
  "chain_find key xs i = Inr (Some j) \<Longrightarrow>
   i \<le> j \<and> j - i < length xs \<and> fnn_name (xs ! (j - i)) = CHR ''/'' # key"
proof (induction xs arbitrary: i)
  case Nil
  then show ?case by simp
next
  case (Cons x xs)
  show ?case
  proof (cases "tl (fnn_name x) = key")
    case True
    with Cons.prems have "j = i" "fnn_name x \<noteq> []" "hd (fnn_name x) = CHR ''/''"
      by (auto split: if_splits)
    with True show ?thesis by (cases "fnn_name x") auto
  next
    case False
    with Cons.prems have "chain_find key xs (Suc i) = Inr (Some j)" by (auto split: if_splits)
    from Cons.IH[OF this] show ?thesis by (auto simp: Suc_diff_Suc)
  qed
qed

lemma chain_find_internerr:
  "\<forall>n \<in> set pre. fnn_name n \<noteq> CHR ''/'' # key \<Longrightarrow>
   fnn_name bad = [] \<or> hd (fnn_name bad) \<noteq> CHR ''/'' \<Longrightarrow>
   \<exists>m. chain_find key (pre @ bad # post) i = Inl (Internerr m)"
proof (induction pre arbitrary: i)
  case Nil
  then show ?case by auto
next
  case (Cons x pre)
  show ?case
  proof (cases "fnn_name x = [] \<or> hd (fnn_name x) \<noteq> CHR ''/''")
    case True
    then show ?thesis by auto
  next
    case False
    then obtain k where k: "fnn_name x = CHR ''/'' # k" by (cases "fnn_name x") auto
    with Cons.prems(1) have "k \<noteq> key" by auto
    with k False have "chain_find key ((x # pre) @ bad # post) i =
        chain_find key (pre @ bad # post) (Suc i)" by simp
    moreover from Cons.IH[of "Suc i"] Cons.prems
    have "\<exists>m. chain_find key (pre @ bad # post) (Suc i) = Inl (Internerr m)" by simp
    ultimately show ?thesis by simp
  qed
qed

lemma fsys_hash_find_node_cases:
  fixes h tbl p fl
  defines "key \<equiv> path_skip_slash_dotslash p"
  defines "b \<equiv> unat (h key) mod BINS"
  shows "(\<exists>m. chain_find key (bins tbl b) 0 = Inl (Internerr m) \<and>
              fsys_hash_find_node h tbl p fl = Inl (Internerr m)) \<or>
         (\<exists>i. chain_find key (bins tbl b) 0 = Inr (Some i) \<and>
              fsys_hash_find_node h tbl p fl = Inr (Some (b, i), tbl)) \<or>
         (chain_find key (bins tbl b) 0 = Inr None \<and> fl AND FHFF_NONE \<noteq> 0 \<and>
              fsys_hash_find_node h tbl p fl = Inr (None, tbl)) \<or>
         (chain_find key (bins tbl b) 0 = Inr None \<and> fl AND FHFF_NONE = 0 \<and>
              fsys_hash_find_node h tbl p fl =
                Inr (Some (b, length (bins tbl b)),
                     tbl\<lparr>bins := (bins tbl)(b := bins tbl b @
                            [\<lparr>fnn_name = CHR ''/'' # key, packages = [], divert = None,
                              statoverride = None, trig_interested = [], flags = 0,
                              oldhash = HashNull, newhash = EMPTYHASHFLAG,
                              file_ondisk_id = None\<rparr>]),
                         nfiles := nfiles tbl + 1\<rparr>))"
proof (cases "chain_find key (bins tbl b) 0")
  case (Inl e)
  obtain m where "e = Internerr m" by (cases e) auto
  with Inl show ?thesis
    unfolding fsys_hash_find_node_def Let_def key_def[symmetric] b_def[symmetric] by simp
next
  case (Inr r)
  show ?thesis
  proof (cases r)
    case (Some i)
    with Inr show ?thesis
      unfolding fsys_hash_find_node_def Let_def key_def[symmetric] b_def[symmetric] by simp
  next
    case None
    show ?thesis
    proof (cases "fl AND FHFF_NONE = 0")
      case False
      with Inr None show ?thesis
        unfolding fsys_hash_find_node_def Let_def key_def[symmetric] b_def[symmetric] by simp
    next
      case True
      note nn = new_node_name[of "fl AND FHFF_NOCOPY \<noteq> 0" p, folded key_def]
      from Inr None True show ?thesis
        unfolding fsys_hash_find_node_def Let_def key_def[symmetric] b_def[symmetric] nn
        by simp
    qed
  qed
qed

lemma canonical_name_skip: "canonical_name (CHR ''/'' # path_skip_slash_dotslash p)"
  by (simp add: canonical_name_def path_skip_idem)

lemma fsys_hash_find_node_spelling:
  assumes "path_skip_slash_dotslash q = path_skip_slash_dotslash p"
  shows "fsys_hash_find_node h tbl q fl = fsys_hash_find_node h tbl p fl"
proof -
  note np = new_node_name[of "fl AND FHFF_NOCOPY \<noteq> 0" p]
  note nq = new_node_name[of "fl AND FHFF_NOCOPY \<noteq> 0" q]
  have "fsys_hash_find_node h tbl q fl =
     (case chain_find (path_skip_slash_dotslash q)
             (bins tbl (unat (h (path_skip_slash_dotslash q)) mod BINS)) 0 of
        Inl e \<Rightarrow> Inl e
      | Inr (Some i) \<Rightarrow> Inr (Some (unat (h (path_skip_slash_dotslash q)) mod BINS, i), tbl)
      | Inr None \<Rightarrow>
          if fl AND FHFF_NONE \<noteq> 0 then Inr (None, tbl)
          else Inr (Some (unat (h (path_skip_slash_dotslash q)) mod BINS,
                          length (bins tbl (unat (h (path_skip_slash_dotslash q)) mod BINS))),
                    tbl\<lparr>bins := (bins tbl)(unat (h (path_skip_slash_dotslash q)) mod BINS :=
                           bins tbl (unat (h (path_skip_slash_dotslash q)) mod BINS) @
                           [\<lparr>fnn_name = CHR ''/'' # path_skip_slash_dotslash q, packages = [],
                             divert = None, statoverride = None, trig_interested = [],
                             flags = 0, oldhash = HashNull, newhash = EMPTYHASHFLAG,
                             file_ondisk_id = None\<rparr>]),
                        nfiles := nfiles tbl + 1\<rparr>))"
    unfolding fsys_hash_find_node_def Let_def nq by (rule refl)
  also have "\<dots> = fsys_hash_find_node h tbl p fl"
    unfolding fsys_hash_find_node_def Let_def np assms by (rule refl)
  finally show ?thesis .
qed

section \<open>Claims on the table of file system nodes\<close>

text \<open>
  C3.  A node that \<open>fsys_hash_find_node\<close> returns, found or new, has as its name a slash
  followed by the path with its leading \<open>/\<close> and \<open>./\<close> pairs stripped, and what follows
  the slash does not begin with a slash.  Two spellings that strip to the same path give
  the same result on the same table, and a later lookup of any such spelling returns the
  same node and leaves the table alone.  A table whose names
  are all canonical stays so.  When the walk along the chain meets, before any match, a
  node whose name does not begin with a slash, the result is the internal error.
\<close>

theorem fsys_hash_find_node_canonical:
  "(\<forall>q. path_skip_slash_dotslash q = path_skip_slash_dotslash p \<longrightarrow>
      fsys_hash_find_node h tbl q fl = fsys_hash_find_node h tbl p fl) \<and>
   (\<forall>r tbl'. fsys_hash_find_node h tbl p fl = Inr (Some r, tbl') \<longrightarrow>
      fnn_name (node_at tbl' r) = CHR ''/'' # path_skip_slash_dotslash p \<and>
      (path_skip_slash_dotslash p = [] \<or> hd (path_skip_slash_dotslash p) \<noteq> CHR ''/'') \<and>
      (\<forall>q fl'. path_skip_slash_dotslash q = path_skip_slash_dotslash p \<longrightarrow>
          fsys_hash_find_node h tbl' q fl' = Inr (Some r, tbl')) \<and>
      (fsys_canonical tbl \<longrightarrow> fsys_canonical tbl')) \<and>
   (\<forall>pre bad post.
      bins tbl (unat (h (path_skip_slash_dotslash p)) mod BINS) = pre @ bad # post \<and>
      (\<forall>n \<in> set pre. fnn_name n \<noteq> CHR ''/'' # path_skip_slash_dotslash p) \<and>
      (fnn_name bad = [] \<or> hd (fnn_name bad) \<noteq> CHR ''/'') \<longrightarrow>
      (\<exists>m. fsys_hash_find_node h tbl p fl = Inl (Internerr m)))"
proof (intro conjI allI impI)
  fix q
  assume "path_skip_slash_dotslash q = path_skip_slash_dotslash p"
  then show "fsys_hash_find_node h tbl q fl = fsys_hash_find_node h tbl p fl"
    by (rule fsys_hash_find_node_spelling)
next
  fix pre bad post
  define key where "key = path_skip_slash_dotslash p"
  define b where "b = unat (h key) mod BINS"
  assume "bins tbl (unat (h (path_skip_slash_dotslash p)) mod BINS) = pre @ bad # post \<and>
      (\<forall>n \<in> set pre. fnn_name n \<noteq> CHR ''/'' # path_skip_slash_dotslash p) \<and>
      (fnn_name bad = [] \<or> hd (fnn_name bad) \<noteq> CHR ''/'')"
  then have c: "bins tbl b = pre @ bad # post" "\<forall>n \<in> set pre. fnn_name n \<noteq> CHR ''/'' # key"
    "fnn_name bad = [] \<or> hd (fnn_name bad) \<noteq> CHR ''/''" by (simp_all add: key_def b_def)
  from chain_find_internerr[OF c(2,3), of post 0] obtain m where
    "chain_find key (bins tbl b) 0 = Inl (Internerr m)" using c(1) by auto
  then show "\<exists>m. fsys_hash_find_node h tbl p fl = Inl (Internerr m)"
    unfolding fsys_hash_find_node_def Let_def key_def[symmetric] b_def[symmetric] by simp
next
  fix r tbl'
  assume a: "fsys_hash_find_node h tbl p fl = Inr (Some r, tbl')"
  let ?key = "path_skip_slash_dotslash p"
  let ?b = "unat (h ?key) mod BINS"
  let ?newnode = "\<lparr>fnn_name = CHR ''/'' # ?key, packages = [], divert = None,
      statoverride = None, trig_interested = [], flags = 0, oldhash = HashNull,
      newhash = EMPTYHASHFLAG, file_ondisk_id = None\<rparr>"
  show "path_skip_slash_dotslash p = [] \<or> hd (path_skip_slash_dotslash p) \<noteq> CHR ''/''"
    by (rule path_skip_no_slash)
  from fsys_hash_find_node_cases[where h=h and p=p and tbl=tbl and fl=fl] a
  consider (found) i where "chain_find ?key (bins tbl ?b) 0 = Inr (Some i)" "r = (?b, i)" "tbl' = tbl"
    | (new) "chain_find ?key (bins tbl ?b) 0 = Inr None" "r = (?b, length (bins tbl ?b))"
      "tbl' = tbl\<lparr>bins := (bins tbl)(?b := bins tbl ?b @ [?newnode]), nfiles := nfiles tbl + 1\<rparr>"
    by auto
  then have main: "fnn_name (node_at tbl' r) = CHR ''/'' # ?key \<and>
      chain_find ?key (bins tbl' ?b) 0 = Inr (Some (snd r)) \<and> fst r = ?b \<and>
      (fsys_canonical tbl \<longrightarrow> fsys_canonical tbl')"
  proof cases
    case found
    from chain_find_Some[OF found(1)] found show ?thesis by (simp add: node_at_def)
  next
    case new
    have "chain_find ?key (bins tbl ?b @ [?newnode]) 0 =
          chain_find ?key [?newnode] (0 + length (bins tbl ?b))"
      by (rule chain_find_append[OF new(1)])
    also have "\<dots> = Inr (Some (length (bins tbl ?b)))" by simp
    finally have cf: "chain_find ?key (bins tbl' ?b) 0 = Inr (Some (snd r))" using new by simp
    have cn: "canonical_name (fnn_name ?newnode)"
      using canonical_name_skip[of p] by simp
    have "fsys_canonical tbl \<longrightarrow> fsys_canonical tbl'"
      using cn new(3) by (simp add: fsys_canonical_def)
    with cf new show ?thesis by (simp add: node_at_def)
  qed
  then show "fnn_name (node_at tbl' r) = CHR ''/'' # path_skip_slash_dotslash p"
    by simp
  {
    assume "fsys_canonical tbl"
    with main show "fsys_canonical tbl'" by simp
  }
  fix q fl'
  assume q: "path_skip_slash_dotslash q = path_skip_slash_dotslash p"
  from main have "chain_find ?key (bins tbl' ?b) 0 = Inr (Some (snd r))" "fst r = ?b" by simp_all
  then show "fsys_hash_find_node h tbl' q fl' = Inr (Some r, tbl')"
    unfolding fsys_hash_find_node_def Let_def q
    by (cases r) simp
qed

theorem fsys_hash_find_node_canonical_witness:
  "(\<exists>r tbl'. fsys_hash_find_node sample_hash fsys_hash_empty ''//./usr/bin'' 0 = Inr (Some r, tbl') \<and>
      fnn_name (node_at tbl' r) = ''/usr/bin'' \<and>
      fsys_hash_find_node sample_hash tbl' ''/usr/bin'' FHFF_NONE = Inr (Some r, tbl') \<and>
      fsys_canonical tbl') \<and>
   (\<exists>m. fsys_hash_find_node sample_hash
          \<lparr>bins = (\<lambda>i. if i = 7 then
                     [\<lparr>fnn_name = ''usr/bin'', packages = [], divert = None, statoverride = None,
                       trig_interested = [], flags = 0, oldhash = HashNull,
                       newhash = EMPTYHASHFLAG, file_ondisk_id = None\<rparr>] else []),
           nfiles = 1\<rparr> ''/usr/bin'' 0 = Inl (Internerr m))"
proof
  let ?T = "fsys_hash_empty\<lparr>bins := (bins fsys_hash_empty)(7 := bins fsys_hash_empty 7 @
      [\<lparr>fnn_name = ''/usr/bin'', packages = [], divert = None, statoverride = None,
        trig_interested = [], flags = 0, oldhash = HashNull, newhash = EMPTYHASHFLAG,
        file_ondisk_id = None\<rparr>]), nfiles := nfiles fsys_hash_empty + 1\<rparr>"
  have f: "fsys_hash_find_node sample_hash fsys_hash_empty ''//./usr/bin'' 0 = Inr (Some (7, 0), ?T)"
    by (simp add: fsys_hash_find_node_def sample_hash_def BINS_def fsys_hash_empty_def
        FHFF_NONE_def FHFF_NOCOPY_def)
  have q: "path_skip_slash_dotslash ''/usr/bin'' = path_skip_slash_dotslash ''//./usr/bin''"
    by simp
  have c: "fsys_canonical fsys_hash_empty" by (simp add: fsys_canonical_def fsys_hash_empty_def)
  note t = fsys_hash_find_node_canonical[of "''//./usr/bin''" sample_hash fsys_hash_empty 0,
      THEN conjunct2, THEN conjunct1, rule_format, OF f]
  from t have n: "fnn_name (node_at ?T (7, 0)) = CHR ''/'' # path_skip_slash_dotslash ''//./usr/bin''"
    by blast
  from t have s: "fsys_hash_find_node sample_hash ?T ''/usr/bin'' FHFF_NONE = Inr (Some (7, 0), ?T)"
    using q by blast
  from t c have k: "fsys_canonical ?T" by blast
  from n have n': "fnn_name (node_at ?T (7, 0)) = ''/usr/bin''" by simp
  show "\<exists>r tbl'. fsys_hash_find_node sample_hash fsys_hash_empty ''//./usr/bin'' 0 = Inr (Some r, tbl') \<and>
      fnn_name (node_at tbl' r) = ''/usr/bin'' \<and>
      fsys_hash_find_node sample_hash tbl' ''/usr/bin'' FHFF_NONE = Inr (Some r, tbl') \<and>
      fsys_canonical tbl'"
    using f n' s k by blast
next
  let ?bad = "\<lparr>fnn_name = ''usr/bin'', packages = [], divert = None, statoverride = None,
                       trig_interested = [], flags = 0, oldhash = HashNull,
                       newhash = EMPTYHASHFLAG, file_ondisk_id = None\<rparr>"
  let ?B = "\<lparr>bins = (\<lambda>i. if i = 7 then [?bad] else []), nfiles = 1\<rparr>"
  have p: "bins ?B (unat (sample_hash (path_skip_slash_dotslash ''/usr/bin'')) mod BINS) = [] @ ?bad # [] \<and>
      (\<forall>n \<in> set []. fnn_name n \<noteq> CHR ''/'' # path_skip_slash_dotslash ''/usr/bin'') \<and>
      (fnn_name ?bad = [] \<or> hd (fnn_name ?bad) \<noteq> CHR ''/'')"
    by (simp add: sample_hash_def BINS_def)
  from fsys_hash_find_node_canonical[of "''/usr/bin''" sample_hash ?B 0,
      THEN conjunct2, THEN conjunct2, rule_format, OF p]
  show "\<exists>m. fsys_hash_find_node sample_hash ?B ''/usr/bin'' 0 = Inl (Internerr m)" .
qed

text \<open>
  C7, as amended.  \<open>fsys_hash_init\<close> keeps the file count and the length of every chain,
  and every node of the table comes out with its flags zero, its old hash \<open>NULL\<close>, its
  new hash the empty marker and its on-disk identity \<open>NULL\<close>, and with the name, the
  owning packages, the diversion, the stat override and the trigger interests it had.
  \<open>fsys_hash_reset\<close> empties every bin and sets the file count to zero.
\<close>

theorem fsys_hash_init_frame:
  "nfiles (fsys_hash_init tbl) = nfiles tbl \<and>
   (\<forall>b. length (bins (fsys_hash_init tbl) b) = length (bins tbl b)) \<and>
   (\<forall>b i. b < BINS \<and> i < length (bins tbl b) \<longrightarrow>
      node_at (fsys_hash_init tbl) (b, i) =
        (node_at tbl (b, i))\<lparr>flags := 0, oldhash := HashNull, newhash := EMPTYHASHFLAG,
                              file_ondisk_id := None\<rparr> \<and>
      fnn_name (node_at (fsys_hash_init tbl) (b, i)) = fnn_name (node_at tbl (b, i)) \<and>
      packages (node_at (fsys_hash_init tbl) (b, i)) = packages (node_at tbl (b, i)) \<and>
      divert (node_at (fsys_hash_init tbl) (b, i)) = divert (node_at tbl (b, i)) \<and>
      statoverride (node_at (fsys_hash_init tbl) (b, i)) = statoverride (node_at tbl (b, i)) \<and>
      trig_interested (node_at (fsys_hash_init tbl) (b, i)) =
        trig_interested (node_at tbl (b, i))) \<and>
   (\<forall>b. b < BINS \<longrightarrow> bins (fsys_hash_reset tbl) b = []) \<and>
   nfiles (fsys_hash_reset tbl) = 0"
  by (simp add: fsys_hash_init_def fsys_hash_reset_def fsys_hash_clear_def node_at_def)

theorem fsys_hash_init_frame_witness:
  "node_at (fsys_hash_init
      \<lparr>bins = (\<lambda>i. if i = 7 then
                 [\<lparr>fnn_name = ''/usr/bin'', packages = [''coreutils''], divert = None,
                   statoverride = Some \<lparr>uid = 0, gid = 0, mode = 493\<rparr>,
                   trig_interested = [], flags = 66, oldhash = Hash ''d41d8cd9'',
                   newhash = Hash ''d41d8cd9'', file_ondisk_id = Some (1, 2)\<rparr>] else []),
       nfiles = 1\<rparr>) (7, 0) =
     \<lparr>fnn_name = ''/usr/bin'', packages = [''coreutils''], divert = None,
      statoverride = Some \<lparr>uid = 0, gid = 0, mode = 493\<rparr>,
      trig_interested = [], flags = 0, oldhash = HashNull,
      newhash = EMPTYHASHFLAG, file_ondisk_id = None\<rparr>"
proof -
  let ?n = "\<lparr>fnn_name = ''/usr/bin'', packages = [''coreutils''], divert = None,
                   statoverride = Some \<lparr>uid = 0, gid = 0, mode = 493\<rparr>,
                   trig_interested = [], flags = 66, oldhash = Hash ''d41d8cd9'',
                   newhash = Hash ''d41d8cd9'', file_ondisk_id = Some (1, 2)\<rparr>"
  let ?T = "\<lparr>bins = (\<lambda>i. if i = 7 then [?n] else []), nfiles = 1\<rparr>"
  have p: "7 < BINS \<and> 0 < length (bins ?T 7)" by (simp add: BINS_def)
  from fsys_hash_init_frame[of ?T, THEN conjunct2, THEN conjunct2, THEN conjunct1,
      rule_format, OF p]
  show ?thesis by (simp add: node_at_def)
qed

text \<open>
  C7 as stated fails for the operation that the source names reset: a node that
  \<open>fsys_hash_find_node\<close> has stored is no longer in the table after \<open>fsys_hash_reset\<close>.
\<close>

theorem fsys_hash_reset_counterexample:
  "(case fsys_hash_find_node sample_hash fsys_hash_empty ''/usr/bin'' 0 of
      Inr (Some r, tbl) \<Rightarrow>
        bins tbl (fst r) \<noteq> [] \<and> bins (fsys_hash_reset tbl) (fst r) = [] \<and>
        nfiles tbl = 1 \<and> nfiles (fsys_hash_reset tbl) = 0
    | _ \<Rightarrow> False)"
  by (simp add: fsys_hash_find_node_def sample_hash_def BINS_def fsys_hash_empty_def
      FHFF_NONE_def FHFF_NOCOPY_def fsys_hash_reset_def)

end
